(* ===== verification/Prelude.thy ===== *)
theory Prelude
  imports Main "HOL-Library.Word"
begin

text \<open>
  What every component shares: Go strings as byte strings (\<open>string\<close> is a list of
  8-bit \<open>char\<close>s, which is what a Go \<open>string\<close> is), the error values the code
  creates and compares, the three ways a Go call can end, and the functions of the
  standard package \<open>strings\<close> the code calls.

  A Go panic in any goroutine ends the whole process, because no code under src/ calls
  \<open>recover\<close>; so a panic is a result of its own and not an error value.
\<close>

named_theorems go_simps \<open>evaluation of the outcome and string helpers\<close>

section \<open>Error values and call outcomes\<close>

text \<open>
  \<open>EOF\<close> and \<open>ErrUnexpectedEOF\<close> are the values of package \<open>io\<close> the code compares
  with; \<open>NumError\<close> is what \<open>strconv.Atoi\<close> returns; \<open>ErrorString\<close> is
  \<open>errors.New\<close> or \<open>fmt.Errorf\<close> of a text; \<open>Wrapped\<close> is \<open>fmt.Errorf\<close> with an error
  among its arguments, a value different from the error it mentions.
\<close>

datatype num_error = ErrSyntax | ErrRange

datatype go_error =
    EOF
  | ErrUnexpectedEOF
  | NumError num_error
  | IOError string
  | ErrorString string
  | Wrapped string go_error

datatype 'a go = Ret 'a | Err go_error | Panic

fun go_bind :: "'a go \<Rightarrow> ('a \<Rightarrow> 'b go) \<Rightarrow> 'b go" where
  "go_bind (Ret a) f = f a"
| "go_bind (Err e) f = Err e"
| "go_bind Panic f = Panic"

lemma go_bind_eq_Ret [simp]:
  "go_bind m f = Ret b \<longleftrightarrow> (\<exists>a. m = Ret a \<and> f a = Ret b)"
  by (cases m) auto

lemma go_bind_assoc: "go_bind (go_bind m f) g = go_bind m (\<lambda>a. go_bind (f a) g)"
  by (cases m) auto

text \<open>
  \<open>make\<close> with elements of \<open>sz\<close> bytes panics on a negative count and on a size over the
  address space of the runtime (48 bits on amd64).
\<close>

definition make_ok :: "int \<Rightarrow> int \<Rightarrow> bool" where
  "make_ok sz n \<longleftrightarrow> 0 \<le> n \<and> sz * n \<le> 281474976710656"

section \<open>Bytes\<close>

abbreviation CR :: char where "CR \<equiv> CHR 0x0D"
abbreviation LF :: char where "LF \<equiv> CHR 0x0A"
abbreviation CRLF :: string where "CRLF \<equiv> [CR, LF]"

section \<open>Package strings\<close>

text \<open>
  \<open>strings.ToLower\<close> on ASCII text. Bytes from 0x80 on are kept, where Go maps the
  code points they encode; the names the code compares lowered text with are ASCII.
\<close>

definition lower_char :: "char \<Rightarrow> char" where
  "lower_char c =
     (let n = (of_char c :: nat) in if 65 \<le> n \<and> n \<le> 90 then char_of (n + 32) else c)"

definition to_lower :: "string \<Rightarrow> string" where
  "to_lower s = map lower_char s"

definition is_ascii :: "string \<Rightarrow> bool" where
  "is_ascii s = (\<forall>c \<in> set s. (of_char c :: nat) < 128)"

text \<open>\<open>strings.Split\<close> with a one-byte separator: never an empty list.\<close>

fun split_on :: "char \<Rightarrow> string \<Rightarrow> string list" where
  "split_on d [] = [[]]"
| "split_on d (c # cs) =
     (if c = d then [] # split_on d cs
      else (case split_on d cs of [] \<Rightarrow> [[c]] | p # ps \<Rightarrow> (c # p) # ps))"

fun join_with :: "string \<Rightarrow> string list \<Rightarrow> string" where
  "join_with sep [] = []"
| "join_with sep [x] = x"
| "join_with sep (x # xs) = x @ sep @ join_with sep xs"

lemma lower_char_idem [simp]: "lower_char (lower_char c) = lower_char c"
proof -
  have "(of_char (char_of (n + 32) :: char) :: nat) = n + 32" if "n \<le> 90" for n :: nat
    using that by (simp add: of_char_of)
  then show ?thesis by (auto simp: lower_char_def Let_def)
qed

lemma to_lower_idem [simp]: "to_lower (to_lower s) = to_lower s"
  by (simp add: to_lower_def)

lemma to_lower_Nil [simp]: "to_lower [] = []"
  by (simp add: to_lower_def)

lemma length_to_lower [simp]: "length (to_lower s) = length s"
  by (simp add: to_lower_def)

lemma split_on_not_Nil [simp]: "split_on d s \<noteq> []"
  by (cases "(d, s)" rule: split_on.cases) (auto split: list.splits)

lemma split_on_no_sep [simp]: "d \<notin> set s \<Longrightarrow> split_on d s = [s]"
  by (induction s) auto

lemma split_on_append:
  "d \<notin> set s \<Longrightarrow> split_on d (s @ d # t) = s # split_on d t"
  by (induction s) auto

lemma split_on_parts_free: "p \<in> set (split_on d s) \<Longrightarrow> d \<notin> set p"
proof (induction d s arbitrary: p rule: split_on.induct)
  case (2 d c cs)
  then show ?case by (auto split: if_splits list.splits)
qed simp

lemma split_on_hd_free: "d \<notin> set (hd (split_on d s))"
  by (rule split_on_parts_free [of _ d s]) (simp add: hd_in_set)

section \<open>Lists and maps\<close>

lemma takeWhile_neq_append [simp]:
  "d \<notin> set xs \<Longrightarrow> takeWhile (\<lambda>c. c \<noteq> d) (xs @ d # ys) = xs"
  by (induction xs) auto

lemma dropWhile_neq_append [simp]:
  "d \<notin> set xs \<Longrightarrow> dropWhile (\<lambda>c. c \<noteq> d) (xs @ d # ys) = d # ys"
  by (induction xs) auto

lemma split_at_first:
  assumes "d \<in> set s"
  shows "s = takeWhile (\<lambda>c. c \<noteq> d) s @ d # tl (dropWhile (\<lambda>c. c \<noteq> d) s)"
  using assms by (induction s) auto

lemma finite_dom_upd [simp, intro]: "finite (dom m) \<Longrightarrow> finite (dom (m(k \<mapsto> v)))"
  by simp

end
