(* ===== verification/Strconv.thy ===== *)
theory Strconv
  imports Prelude
begin

text \<open>
  Go's \<open>int\<close> and \<open>uint64\<close> and the two conversions of package \<open>strconv\<close> the code
  calls. An \<open>int\<close> of the program is a HOL \<open>int\<close> between \<open>min_int\<close> and
  \<open>max_int\<close>; where the code adds, \<open>wrap_int\<close> writes the 64-bit wrap-around out.
  \<open>atoi\<close> returns Go's pair: the value, which the code uses even on an error, and the
  error.
\<close>

named_theorems conv_simps \<open>decimal conversions\<close>

type_synonym uint64 = "64 word"

abbreviation max_int :: int where "max_int \<equiv> 9223372036854775807"
abbreviation min_int :: int where "min_int \<equiv> - 9223372036854775808"
abbreviation max_uint64 :: nat where "max_uint64 \<equiv> 18446744073709551615"

definition in_int64 :: "int \<Rightarrow> bool" where
  "in_int64 n \<longleftrightarrow> min_int \<le> n \<and> n \<le> max_int"

text \<open>The value of \<open>n\<close> after it is stored in a 64-bit two's complement integer.\<close>

definition wrap_int :: "int \<Rightarrow> int" where
  "wrap_int n = (n + 9223372036854775808) mod 18446744073709551616 - 9223372036854775808"

section \<open>Decimal digits\<close>

definition is_digit :: "char \<Rightarrow> bool" where
  "is_digit c \<longleftrightarrow> 48 \<le> (of_char c :: nat) \<and> (of_char c :: nat) \<le> 57"

definition digit_val :: "char \<Rightarrow> nat" where
  "digit_val c = of_char c - 48"

definition digit_char :: "nat \<Rightarrow> char" where
  "digit_char d = char_of (48 + d)"

section \<open>strconv.Itoa\<close>

fun dec_digits :: "nat \<Rightarrow> string" where
  "dec_digits n =
     (if n < 10 then [digit_char n] else dec_digits (n div 10) @ [digit_char (n mod 10)])"

declare dec_digits.simps [simp del]

definition itoa :: "int \<Rightarrow> string" where
  "itoa n = (if n < 0 then CHR ''-'' # dec_digits (nat (- n)) else dec_digits (nat n))"

section \<open>strconv.Atoi\<close>

text \<open>
  \<open>ParseUint\<close> with base 10 and 64 bits: the first byte that is not a digit is a syntax
  error, and a prefix whose value does not fit is a range error, whichever comes first.
\<close>

fun parse_digits :: "nat \<Rightarrow> string \<Rightarrow> nat \<times> num_error option" where
  "parse_digits n [] = (n, None)"
| "parse_digits n (c # cs) =
     (if \<not> is_digit c then (0, Some ErrSyntax)
      else if 10 * n + digit_val c > max_uint64 then (max_uint64, Some ErrRange)
      else parse_digits (10 * n + digit_val c) cs)"

definition parse_uint :: "string \<Rightarrow> nat \<times> num_error option" where
  "parse_uint s = (if s = [] then (0, Some ErrSyntax) else parse_digits 0 s)"

definition parse_sign :: "string \<Rightarrow> bool \<times> string" where
  "parse_sign s =
     (case s of [] \<Rightarrow> (False, [])
      | c # cs \<Rightarrow> if c = CHR ''+'' then (False, cs)
                  else if c = CHR ''-'' then (True, cs) else (False, s))"

definition atoi :: "string \<Rightarrow> int \<times> num_error option" where
  "atoi s =
     (if s = [] then (0, Some ErrSyntax)
      else let (neg, body) = parse_sign s; (un, e) = parse_uint body in
        if e = Some ErrSyntax then (0, Some ErrSyntax)
        else if \<not> neg \<and> un \<ge> 9223372036854775808 then (max_int, Some ErrRange)
        else if neg \<and> un > 9223372036854775808 then (min_int, Some ErrRange)
        else (if neg then - int un else int un, None))"

section \<open>Facts\<close>

lemma wrap_int_id [conv_simps]: "in_int64 n \<Longrightarrow> wrap_int n = n"
  by (simp add: wrap_int_def in_int64_def)

lemma wrap_int_range [conv_simps]: "in_int64 (wrap_int n)"
proof -
  have "0 \<le> (n + 9223372036854775808) mod 18446744073709551616"
    "(n + 9223372036854775808) mod 18446744073709551616 < 18446744073709551616"
    by simp_all
  then show ?thesis by (simp add: wrap_int_def in_int64_def)
qed

lemma wrap_int_max [simp]: "wrap_int (max_int + 1) = min_int"
  by (simp add: wrap_int_def)

lemma of_char_digit_char: "d < 10 \<Longrightarrow> (of_char (digit_char d) :: nat) = 48 + d"
  by (simp add: digit_char_def of_char_of)

lemma is_digit_digit_char [simp]: "d < 10 \<Longrightarrow> is_digit (digit_char d)"
  by (simp add: is_digit_def of_char_digit_char)

lemma digit_val_digit_char [simp]: "d < 10 \<Longrightarrow> digit_val (digit_char d) = d"
  by (simp add: digit_val_def of_char_digit_char)

lemma digit_val_bound: "is_digit c \<Longrightarrow> digit_val c \<le> 9"
  unfolding is_digit_def digit_val_def by linarith

lemma dec_digits_not_Nil [simp]: "dec_digits n \<noteq> []"
  by (subst dec_digits.simps) simp

lemma dec_digits_are_digits: "c \<in> set (dec_digits n) \<Longrightarrow> is_digit c"
proof (induction n rule: dec_digits.induct)
  case (1 n)
  then show ?case by (auto simp: dec_digits.simps [of n] split: if_splits)
qed

text \<open>Parsing is left to right, so a prefix without error is a new start.\<close>

lemma parse_digits_append:
  "parse_digits n xs = (m, None) \<Longrightarrow> parse_digits n (xs @ ys) = parse_digits m ys"
  by (induction xs arbitrary: n) (auto split: if_splits)

lemma parse_dec_digits: "n \<le> max_uint64 \<Longrightarrow> parse_digits 0 (dec_digits n) = (n, None)"
proof (induction n rule: dec_digits.induct)
  case (1 n)
  show ?case
  proof (cases "n < 10")
    case True
    then show ?thesis by (simp add: dec_digits.simps [of n])
  next
    case False
    with 1 have "parse_digits 0 (dec_digits (n div 10)) = (n div 10, None)" by simp
    then have "parse_digits 0 (dec_digits n) = parse_digits (n div 10) [digit_char (n mod 10)]"
      using False by (simp add: dec_digits.simps [of n] parse_digits_append)
    also have "10 * (n div 10) + n mod 10 = n" by simp
    then have "parse_digits (n div 10) [digit_char (n mod 10)] = (n, None)"
      using "1.prems" by simp
    finally show ?thesis .
  qed
qed

lemma parse_uint_dec_digits: "n \<le> max_uint64 \<Longrightarrow> parse_uint (dec_digits n) = (n, None)"
  by (simp add: parse_uint_def parse_dec_digits)

lemma sign_not_digit: "\<not> is_digit (CHR ''-'')" "\<not> is_digit (CHR ''+'')"
  by (simp_all add: is_digit_def)

lemma parse_sign_digits: "(\<forall>c \<in> set s. is_digit c) \<Longrightarrow> parse_sign s = (False, s)"
  by (cases s) (auto simp: parse_sign_def sign_not_digit)

lemma parse_sign_dec_digits [simp]: "parse_sign (dec_digits n) = (False, dec_digits n)"
  by (rule parse_sign_digits) (auto intro: dec_digits_are_digits)

text \<open>The number the code prints is the number it reads back.\<close>

lemma atoi_itoa [simp]: "in_int64 n \<Longrightarrow> atoi (itoa n) = (n, None)"
proof (cases "n < 0")
  case True
  moreover assume "in_int64 n"
  ultimately have "nat (- n) \<le> 9223372036854775808" by (simp add: in_int64_def)
  then show ?thesis using True
    by (simp add: atoi_def itoa_def parse_sign_def parse_uint_dec_digits)
next
  case False
  moreover assume "in_int64 n"
  ultimately have "nat n \<le> 9223372036854775807" by (simp add: in_int64_def)
  then show ?thesis using False
    by (simp add: atoi_def itoa_def parse_uint_dec_digits)
qed

lemma parse_digits_bound: "n \<le> max_uint64 \<Longrightarrow> fst (parse_digits n s) \<le> max_uint64"
  by (induction n s rule: parse_digits.induct) auto

lemma atoi_range: "in_int64 (fst (atoi s))"
proof -
  have "fst (parse_uint t) \<le> max_uint64" for t
    by (simp add: parse_uint_def parse_digits_bound)
  then show ?thesis
    by (auto simp: atoi_def in_int64_def Let_def split: prod.splits)
qed

text \<open>Text without a sign is never read as a negative number, on an error either.\<close>

lemma atoi_nonneg: "CHR ''-'' \<notin> set s \<Longrightarrow> 0 \<le> fst (atoi s)"
  by (auto simp: atoi_def parse_sign_def Let_def split: prod.splits list.splits if_splits)

lemma itoa_no_dash: "0 \<le> n \<Longrightarrow> CHR ''-'' \<notin> set (itoa n)"
  using dec_digits_are_digits [of "CHR ''-''" "nat n"] by (auto simp: itoa_def sign_not_digit)

lemma itoa_not_Nil [simp]: "itoa n \<noteq> []"
  by (simp add: itoa_def)

lemma itoa_bytes: "c \<in> set (itoa n) \<Longrightarrow> is_digit c \<or> c = CHR ''-''"
  by (auto simp: itoa_def dest: dec_digits_are_digits split: if_splits)

lemma itoa_no_CR [simp]: "CR \<notin> set (itoa n)" and itoa_no_LF [simp]: "LF \<notin> set (itoa n)"
  using itoa_bytes [of CR n] itoa_bytes [of LF n] by (auto simp: is_digit_def)

end
