(* ===== verification/Bufio.thy ===== *)
theory Bufio
  imports Prelude
begin

text \<open>
  The \<open>bufio.Reader\<close> both programs read through, with the 4096-byte buffer that
  \<open>bufio.NewReader\<close> allocates. \<open>rbuf\<close> holds the bytes read from the connection and not
  yet consumed, \<open>rsrc\<close> the pieces in which the rest of the input will arrive (one
  piece per successful read of the connection, or of the file or string), \<open>rerrs\<close> the errors
  that the reads after the last piece report, one each, before the end of the input;
  \<open>EOF\<close> is reported by every read from then on. A connection that was reset reports that
  once and then \<open>EOF\<close>; \<open>bufio.Reader\<close> hands an error out once and asks again.

  Which bytes a call returns can depend on the pieces: \<open>Read\<close> returns what is buffered
  and asks the connection at most once, while \<open>ReadByte\<close>, \<open>ReadString\<close>, \<open>Peek\<close> and
  \<open>Discard\<close> keep asking. The locale \<open>byte_stream\<close> states the second group's
  contract over \<open>pending\<close>, the bytes still to come; \<open>Read\<close> has lemmas of its own.
\<close>

named_theorems bufio_simps \<open>reader operations on buffered bytes\<close>

declare concat_eq_Nil_conv [simp del]

section \<open>The reader and its operations\<close>

record reader =
  rbuf :: string
  rsrc :: "string list"
  rerrs :: "go_error list"

abbreviation bufsize :: nat where "bufsize \<equiv> 4096"

definition new_reader :: "string list \<Rightarrow> go_error \<Rightarrow> reader" where
  "new_reader cs e = \<lparr>rbuf = [], rsrc = cs, rerrs = [e]\<rparr>"

text \<open>The errors still to come before the end of the input, the next one, and the reader after
  a read reported it.\<close>

definition faults :: "reader \<Rightarrow> go_error list" where
  "faults r = takeWhile (\<lambda>e. e \<noteq> EOF) (rerrs r)"

definition next_fault :: "go_error list \<Rightarrow> go_error" where
  "next_fault es = (case es of [] \<Rightarrow> EOF | e # _ \<Rightarrow> e)"

abbreviation rerr :: "reader \<Rightarrow> go_error" where
  "rerr r \<equiv> next_fault (faults r)"

definition reported :: "reader \<Rightarrow> reader" where
  "reported r = r\<lparr>rerrs := tl (faults r)\<rparr>"

text \<open>\<open>strings.NewReader\<close> under a new buffered reader.\<close>

definition string_reader :: "string \<Rightarrow> reader" where
  "string_reader s = new_reader [s] EOF"

definition pending :: "reader \<Rightarrow> string" where
  "pending r = rbuf r @ concat (rsrc r)"

text \<open>
  One read of the connection into \<open>n\<close> bytes of room. No bytes means that the input is
  over; an empty piece is skipped.
\<close>

fun src_read :: "nat \<Rightarrow> string list \<Rightarrow> string \<times> string list" where
  "src_read n [] = ([], [])"
| "src_read n (c # cs) =
     (if c = [] then src_read n cs
      else if length c \<le> n then (c, cs)
      else (take n c, drop n c # cs))"

definition fill :: "reader \<Rightarrow> reader" where
  "fill r = (let (b, cs) = src_read (bufsize - length (rbuf r)) (rsrc r)
             in r\<lparr>rbuf := rbuf r @ b, rsrc := cs\<rparr>)"

definition read_byte :: "reader \<Rightarrow> char go \<times> reader" where
  "read_byte r =
     (case rbuf r of
        c # b \<Rightarrow> (Ret c, r\<lparr>rbuf := b\<rparr>)
      | [] \<Rightarrow> (let r' = fill r in
          case rbuf r' of
            c # b \<Rightarrow> (Ret c, r'\<lparr>rbuf := b\<rparr>)
          | [] \<Rightarrow> (Err (rerr r'), reported r')))"

text \<open>\<open>Read\<close> into a slice of length \<open>n\<close>: the bytes it copied.\<close>

definition read_some :: "nat \<Rightarrow> reader \<Rightarrow> string go \<times> reader" where
  "read_some n r =
     (if n = 0 then (Ret [], r)
      else if rbuf r \<noteq> [] then (Ret (take n (rbuf r)), r\<lparr>rbuf := drop n (rbuf r)\<rparr>)
      else if n \<ge> bufsize then
        (let (b, cs) = src_read n (rsrc r) in
          if b = [] then (Err (rerr r), reported (r\<lparr>rsrc := cs\<rparr>)) else (Ret b, r\<lparr>rsrc := cs\<rparr>))
      else
        (let r' = fill r in
          if rbuf r' = [] then (Err (rerr r'), reported r')
          else (Ret (take n (rbuf r')), r'\<lparr>rbuf := drop n (rbuf r')\<rparr>)))"

lemma src_read_concat:
  "src_read n cs = (b, cs') \<Longrightarrow> 0 < n \<Longrightarrow> b @ concat cs' = concat cs"
  by (induction n cs arbitrary: b cs' rule: src_read.induct) (auto split: if_splits)

lemma src_read_Nil:
  "src_read n cs = ([], cs') \<Longrightarrow> 0 < n \<Longrightarrow> concat cs = [] \<and> cs' = []"
  by (induction n cs arbitrary: cs' rule: src_read.induct) (auto split: if_splits)

lemma src_read_length: "src_read n cs = (b, cs') \<Longrightarrow> length b \<le> n"
  by (induction n cs arbitrary: b cs' rule: src_read.induct) (auto split: if_splits)

lemma src_read_zero: "fst (src_read 0 cs) = []"
  by (induction "0 :: nat" cs rule: src_read.induct) auto

lemma fill_pending [simp]:
  assumes "length (rbuf r) < bufsize"
  shows "pending (fill r) = pending r"
proof -
  obtain b cs where "src_read (bufsize - length (rbuf r)) (rsrc r) = (b, cs)"
    by fastforce
  with assms show ?thesis
    by (simp add: fill_def pending_def src_read_concat)
qed

lemma faults_upd [simp]: "faults (r\<lparr>rbuf := b\<rparr>) = faults r" "faults (r\<lparr>rsrc := cs\<rparr>) = faults r"
  by (simp_all add: faults_def)

lemma faults_make [simp]: "faults \<lparr>rbuf = b, rsrc = cs, rerrs = es\<rparr> = takeWhile (\<lambda>e. e \<noteq> EOF) es"
  by (simp add: faults_def)

lemma fill_rerrs [simp]: "rerrs (fill r) = rerrs r" "faults (fill r) = faults r"
  by (simp_all add: fill_def faults_def split: prod.splits)

lemma faults_new_reader [simp]: "faults (new_reader cs e) = (if e = EOF then [] else [e])"
  by (simp add: new_reader_def faults_def)

lemma next_fault_simps [simp]: "next_fault [] = EOF" "next_fault (e # es) = e"
  by (simp_all add: next_fault_def)

lemma faults_no_EOF: "e \<in> set (faults r) \<Longrightarrow> e \<noteq> EOF"
  by (auto simp: faults_def dest: set_takeWhileD)

lemma rerr_EOF: "rerr r = EOF \<longleftrightarrow> faults r = []"
  using faults_no_EOF [of "hd (faults r)" r] by (cases "faults r") auto

lemma takeWhile_tl_takeWhile: "takeWhile P (tl (takeWhile P xs)) = tl (takeWhile P xs)"
  using set_takeWhileD [of _ P xs] by (cases "takeWhile P xs") (auto simp: takeWhile_eq_all_conv)

lemma reported_simps [simp]:
  "rbuf (reported r) = rbuf r" "rsrc (reported r) = rsrc r" "pending (reported r) = pending r"
  "faults (reported r) = tl (faults r)"
  by (simp_all add: reported_def pending_def) (simp add: faults_def takeWhile_tl_takeWhile)

lemma fill_extends: "\<exists>b. rbuf (fill r) = rbuf r @ b"
  by (simp add: fill_def split: prod.splits)

lemma fill_grows:
  assumes "rbuf (fill r) \<noteq> rbuf r" shows "length (rbuf r) < length (rbuf (fill r))"
  using assms fill_extends [of r] by auto

lemma fill_end:
  assumes "rbuf (fill r) = rbuf r" "length (rbuf r) < bufsize"
  shows "rsrc (fill r) = []" "concat (rsrc r) = []"
proof -
  obtain b cs where eq: "src_read (bufsize - length (rbuf r)) (rsrc r) = (b, cs)"
    by fastforce
  with assms(1) have "b = []" by (simp add: fill_def)
  with eq assms(2) src_read_Nil [of "bufsize - length (rbuf r)" "rsrc r" cs]
  show "rsrc (fill r) = []" "concat (rsrc r) = []"
    by (auto simp: fill_def)
qed

text \<open>A fill moves bytes from the pieces to the buffer.\<close>

lemma fill_measure:
  assumes "rbuf (fill r) \<noteq> rbuf r" "length (rbuf r) < bufsize"
  shows "length (rbuf (fill r)) + 2 * length (concat (rsrc (fill r)))
       < length (rbuf r) + 2 * length (concat (rsrc r))"
proof -
  have "length (pending (fill r)) = length (pending r)" using assms by simp
  then show ?thesis using fill_grows [OF assms(1)] by (simp add: pending_def)
qed

text \<open>What \<open>Read\<close> returns is the front of the input, at most \<open>n\<close> bytes of it.\<close>

lemma read_some_pending:
  assumes "read_some n r = (Ret b, r')"
  shows "pending r = b @ pending r'" "length b \<le> n" "faults r' = faults r"
proof -
  have "pending (fill r) = rbuf (fill r) @ concat (rsrc (fill r))" by (simp add: pending_def)
  then have fl: "concat (rsrc r) = rbuf (fill r) @ concat (rsrc (fill r))" if "rbuf r = []"
    using that fill_pending [of r] by (simp add: pending_def)
  show "pending r = b @ pending r'"
    using assms fl src_read_concat [of n "rsrc r"]
    by (auto simp: read_some_def pending_def Let_def simp flip: append_assoc split: if_splits prod.splits)
  show "length b \<le> n" "faults r' = faults r"
    using assms src_read_length [of n "rsrc r"]
    by (auto simp: read_some_def Let_def split: if_splits prod.splits)
qed

text \<open>\<open>Peek (n)\<close>: the next bytes, fewer than \<open>n\<close> only with an error.\<close>

function peek_fill :: "nat \<Rightarrow> reader \<Rightarrow> reader" where
  "peek_fill n r =
     (if n \<le> length (rbuf r) then r
      else if rbuf (fill r) = rbuf r then fill r
      else peek_fill n (fill r))"
  by pat_completeness auto
termination
  by (relation "measure (\<lambda>(n, r). n - length (rbuf r))")
     (auto dest: fill_grows)

declare peek_fill.simps [simp del]

definition peek :: "nat \<Rightarrow> reader \<Rightarrow> (string \<times> go_error option) \<times> reader" where
  "peek n r =
     (let r' = peek_fill n r in
       if length (rbuf r') < n then ((take n (rbuf r'), Some (rerr r')), reported r')
       else ((take n (rbuf r'), None), r'))"

text \<open>\<open>Discard (n)\<close>: how many bytes it dropped, and the error if it dropped fewer.\<close>

function discard :: "nat \<Rightarrow> reader \<Rightarrow> (nat \<times> go_error option) \<times> reader" where
  "discard n r =
     (if n = 0 then ((0, None), r)
      else let r1 = (if rbuf r = [] then fill r else r);
               skip = min (length (rbuf r1)) n
           in if skip = 0 then ((0, Some (rerr r1)), reported r1)
              else (case discard (n - skip) (r1\<lparr>rbuf := drop skip (rbuf r1)\<rparr>) of
                      ((k, e), r2) \<Rightarrow> ((skip + k, e), r2)))"
  by pat_completeness auto
termination
  by (relation "measure (\<lambda>(n, r). n)") auto

declare discard.simps [simp del]

text \<open>
  \<open>ReadString\<close>: up to and with the delimiter, over as many reads as it takes; a full
  buffer without the delimiter is set aside in \<open>acc\<close>.
\<close>

function read_string_acc ::
  "char \<Rightarrow> string \<Rightarrow> reader \<Rightarrow> (string \<times> go_error option) \<times> reader" where
  "read_string_acc d acc r =
     (if d \<in> set (rbuf r) then
        ((acc @ takeWhile (\<lambda>c. c \<noteq> d) (rbuf r) @ [d], None),
         r\<lparr>rbuf := tl (dropWhile (\<lambda>c. c \<noteq> d) (rbuf r))\<rparr>)
      else if length (rbuf r) \<ge> bufsize then
        read_string_acc d (acc @ rbuf r) (r\<lparr>rbuf := []\<rparr>)
      else if rbuf (fill r) = rbuf r then
        ((acc @ rbuf r, Some (rerr r)), reported ((fill r)\<lparr>rbuf := []\<rparr>))
      else read_string_acc d acc (fill r))"
  by pat_completeness auto
termination
  by (relation "measure (\<lambda>(d, acc, r). length (rbuf r) + 2 * length (concat (rsrc r)))")
     (auto dest: fill_measure)

declare read_string_acc.simps [simp del]

definition read_string :: "char \<Rightarrow> reader \<Rightarrow> (string \<times> go_error option) \<times> reader" where
  "read_string d r = read_string_acc d [] r"

section \<open>The stream contract\<close>

text \<open>
  The interface a client that reads byte by byte, line by line or by peeking relies on:
  the operations act on \<open>pend\<close> alone, however the bytes arrive.
\<close>

locale byte_stream =
  fixes pend :: "'r \<Rightarrow> string"
    and flts :: "'r \<Rightarrow> go_error list"
    and rbyte :: "'r \<Rightarrow> char go \<times> 'r"
    and rstring :: "char \<Rightarrow> 'r \<Rightarrow> (string \<times> go_error option) \<times> 'r"
    and rpeek :: "nat \<Rightarrow> 'r \<Rightarrow> (string \<times> go_error option) \<times> 'r"
    and rdiscard :: "nat \<Rightarrow> 'r \<Rightarrow> (nat \<times> go_error option) \<times> 'r"
  assumes rbyte_more: "pend r = c # s \<Longrightarrow> \<exists>r'. rbyte r = (Ret c, r') \<and> pend r' = s \<and> flts r' = flts r"
    and rbyte_end: "pend r = [] \<Longrightarrow> \<exists>r'. rbyte r = (Err (next_fault (flts r)), r') \<and> pend r' = [] \<and> flts r' = tl (flts r)"
    and rstring_found: "d \<notin> set s \<Longrightarrow> pend r = s @ d # t \<Longrightarrow>
      \<exists>r'. rstring d r = ((s @ [d], None), r') \<and> pend r' = t \<and> flts r' = flts r"
    and rstring_end: "d \<notin> set (pend r) \<Longrightarrow>
      \<exists>r'. rstring d r = ((pend r, Some (next_fault (flts r))), r') \<and> pend r' = [] \<and> flts r' = tl (flts r)"
    and rpeek_law: "n \<le> bufsize \<Longrightarrow>
      \<exists>r'. rpeek n r = ((take n (pend r), if length (pend r) < n then Some (next_fault (flts r)) else None), r')
        \<and> pend r' = pend r \<and> flts r' = (if length (pend r) < n then tl (flts r) else flts r)"
    and rdiscard_law: "\<exists>r'. rdiscard n r
        = ((min n (length (pend r)), if length (pend r) < n then Some (next_fault (flts r)) else None), r')
        \<and> pend r' = drop n (pend r) \<and> flts r' = (if length (pend r) < n then tl (flts r) else flts r)"
begin

lemma rbyte_cases:
  obtains (more) c s r' where "pend r = c # s" "rbyte r = (Ret c, r')" "pend r' = s" "flts r' = flts r"
  | (end_of_input) r' where "pend r = []" "rbyte r = (Err (next_fault (flts r)), r')" "pend r' = []" "flts r' = tl (flts r)"
  using rbyte_more [of r] rbyte_end [of r] by (cases "pend r") auto

lemma rstring_total:
  obtains s e r' where "rstring d r = ((s, e), r')" "pend r = s @ pend r'" "flts r' = (if e = None then flts r else tl (flts r))"
    "e = None \<longleftrightarrow> d \<in> set (pend r)" "e = None \<Longrightarrow> s \<noteq> [] \<and> last s = d"
proof (cases "d \<in> set (pend r)")
  case True
  then obtain s t where st: "pend r = s @ d # t" "d \<notin> set s"
    by (meson split_list_first)
  then obtain r' where "rstring d r = ((s @ [d], None), r')" "pend r' = t" "flts r' = flts r"
    using rstring_found by blast
  with st True show ?thesis by (intro that [of "s @ [d]" None r']) auto
next
  case False
  then obtain r' where "rstring d r = ((pend r, Some (next_fault (flts r))), r')" "pend r' = []" "flts r' = tl (flts r)"
    using rstring_end by blast
  with False show ?thesis by (intro that [of "pend r" "Some (next_fault (flts r))" r']) auto
qed

text \<open>A line that ends in CRLF is read with its ending.\<close>

lemma rstring_crlf:
  assumes "LF \<notin> set s" "pend r = s @ CRLF @ t"
  shows "\<exists>r'. rstring LF r = ((s @ CRLF, None), r') \<and> pend r' = t \<and> flts r' = flts r"
proof -
  have "LF \<notin> set (s @ [CR])" "pend r = (s @ [CR]) @ LF # t" using assms by auto
  from rstring_found [OF this] show ?thesis by simp
qed

text \<open>Peeking at a CRLF and dropping it.\<close>

lemma peek_discard_crlf:
  assumes "pend r = CRLF @ t"
  shows "\<exists>r1 r2. rpeek 2 r = ((CRLF, None), r1) \<and> rdiscard 2 r1 = ((2, None), r2) \<and> pend r2 = t
    \<and> flts r2 = flts r"
proof -
  obtain r1 where r1: "rpeek 2 r = ((CRLF, None), r1)" "pend r1 = CRLF @ t" "flts r1 = flts r"
    using rpeek_law [of 2 r] assms by auto
  with rdiscard_law [of 2 r1] show ?thesis by (auto simp: numeral_2_eq_2)
qed

end

section \<open>bufio.Reader provides it\<close>

lemma read_byte_more:
  assumes "pending r = c # s"
  shows "\<exists>r'. read_byte r = (Ret c, r') \<and> pending r' = s \<and> faults r' = faults r"
proof (cases "rbuf r")
  case Nil
  have p: "pending (fill r) = c # s" using assms Nil by simp
  have "rbuf (fill r) \<noteq> []" using fill_end [of r] Nil assms by (auto simp: pending_def)
  then obtain b where "rbuf (fill r) = c # b" using p by (cases "rbuf (fill r)") (auto simp: pending_def)
  then show ?thesis using p Nil by (auto simp: read_byte_def pending_def)
next
  case (Cons a b)
  then show ?thesis using assms by (auto simp: read_byte_def pending_def)
qed

lemma read_byte_end:
  assumes "pending r = []"
  shows "\<exists>r'. read_byte r = (Err (rerr r), r') \<and> pending r' = [] \<and> faults r' = tl (faults r)"
proof -
  have "rbuf r = []" using assms by (simp add: pending_def)
  moreover then have "pending (fill r) = []" using assms by simp
  ultimately show ?thesis by (simp add: read_byte_def pending_def)
qed

lemma read_string_acc_found:
  "d \<notin> set s \<Longrightarrow> pending r = s @ d # t \<Longrightarrow>
   \<exists>r'. read_string_acc d acc r = ((acc @ s @ [d], None), r') \<and> pending r' = t \<and> faults r' = faults r"
proof (induction d acc r arbitrary: s rule: read_string_acc.induct)
  case (1 d acc r)
  consider (here) "d \<in> set (rbuf r)"
    | (full) "d \<notin> set (rbuf r)" "length (rbuf r) \<ge> bufsize"
    | (more) "d \<notin> set (rbuf r)" "length (rbuf r) < bufsize"
    by linarith
  then show ?case
  proof cases
    case here
    then obtain u v where uv: "rbuf r = u @ d # v" "d \<notin> set u" by (meson split_list_first)
    then have eq: "u @ d # v @ concat (rsrc r) = s @ d # t"
      using "1.prems" by (simp add: pending_def)
    have "takeWhile (\<lambda>c. c \<noteq> d) (u @ d # v @ concat (rsrc r)) = u"
      "dropWhile (\<lambda>c. c \<noteq> d) (u @ d # v @ concat (rsrc r)) = d # v @ concat (rsrc r)"
      using uv by simp_all
    then have "s = u" "t = v @ concat (rsrc r)" unfolding eq using "1.prems"(1) by simp_all
    then show ?thesis using uv here by (simp add: read_string_acc.simps [of d acc r] pending_def)
  next
    case full
    obtain s' where s': "s = rbuf r @ s'" "concat (rsrc r) = s' @ d # t"
      using "1.prems"(2) full(1)
      by (auto simp: pending_def append_eq_append_conv2 append_eq_Cons_conv)
    then have "\<exists>r'. read_string_acc d (acc @ rbuf r) (r\<lparr>rbuf := []\<rparr>) = (((acc @ rbuf r) @ s' @ [d], None), r')
        \<and> pending r' = t \<and> faults r' = faults (r\<lparr>rbuf := []\<rparr>)"
      using "1.prems"(1) full by (intro "1.IH"(1)) (auto simp: pending_def)
    then show ?thesis using full s' by (simp add: read_string_acc.simps [of d acc r])
  next
    case more
    have "d \<in> set (concat (rsrc r))" using "1.prems"(2) more(1)
      by (metis in_set_conv_decomp pending_def set_append Un_iff)
    then have "concat (rsrc r) \<noteq> []" by force
    then have ne: "rbuf (fill r) \<noteq> rbuf r" using fill_end(2) [of r] more(2) by blast
    then have "\<exists>r'. read_string_acc d acc (fill r) = ((acc @ s @ [d], None), r')
        \<and> pending r' = t \<and> faults r' = faults (fill r)"
      using "1.prems" more by (intro "1.IH"(2)) auto
    then show ?thesis using more ne by (simp add: read_string_acc.simps [of d acc r])
  qed
qed

lemma read_string_acc_end:
  "d \<notin> set (pending r) \<Longrightarrow>
   \<exists>r'. read_string_acc d acc r = ((acc @ pending r, Some (rerr r)), r') \<and> pending r' = [] \<and> faults r' = tl (faults r)"
proof (induction d acc r rule: read_string_acc.induct)
  case (1 d acc r)
  have no: "d \<notin> set (rbuf r)" using "1.prems" by (simp add: pending_def)
  consider (full) "length (rbuf r) \<ge> bufsize"
    | (over) "length (rbuf r) < bufsize" "rbuf (fill r) = rbuf r"
    | (more) "length (rbuf r) < bufsize" "rbuf (fill r) \<noteq> rbuf r"
    by linarith
  then show ?case
  proof cases
    case full
    with "1.IH"(1) no "1.prems" have "\<exists>r'. read_string_acc d (acc @ rbuf r) (r\<lparr>rbuf := []\<rparr>)
        = (((acc @ rbuf r) @ pending (r\<lparr>rbuf := []\<rparr>), Some (rerr (r\<lparr>rbuf := []\<rparr>))), r')
        \<and> pending r' = [] \<and> faults r' = tl (faults (r\<lparr>rbuf := []\<rparr>))"
      by (simp add: pending_def)
    then show ?thesis using full no by (simp add: read_string_acc.simps [of d acc r] pending_def)
  next
    case over
    then show ?thesis using no fill_end [OF over(2,1)]
      by (simp add: read_string_acc.simps [of d acc r] pending_def)
  next
    case more
    then show ?thesis using "1.IH"(2) no "1.prems"
      by (simp add: read_string_acc.simps [of d acc r])
  qed
qed

lemma peek_fill_law:
  "n \<le> bufsize \<Longrightarrow> pending (peek_fill n r) = pending r \<and> faults (peek_fill n r) = faults r
   \<and> take n (rbuf (peek_fill n r)) = take n (pending r)
   \<and> (length (rbuf (peek_fill n r)) < n \<longleftrightarrow> length (pending r) < n)"
proof (induction n r rule: peek_fill.induct)
  case (1 n r)
  consider (enough) "n \<le> length (rbuf r)"
    | (over) "length (rbuf r) < n" "rbuf (fill r) = rbuf r"
    | (more) "length (rbuf r) < n" "rbuf (fill r) \<noteq> rbuf r"
    by linarith
  then show ?case
  proof cases
    case enough
    then show ?thesis by (simp add: peek_fill.simps [of n r] pending_def)
  next
    case over
    with "1.prems" have "concat (rsrc r) = []" "pending (fill r) = pending r"
      by (auto simp: fill_end)
    with over show ?thesis by (simp add: peek_fill.simps [of n r] pending_def)
  next
    case more
    with "1.IH" "1.prems" have "pending (fill r) = pending r" by simp
    with more "1.IH" "1.prems" show ?thesis by (simp add: peek_fill.simps [of n r])
  qed
qed

lemma discard_law:
  "\<exists>r'. discard n r = ((min n (length (pending r)), if length (pending r) < n then Some (rerr r) else None), r')
     \<and> pending r' = drop n (pending r) \<and> faults r' = (if length (pending r) < n then tl (faults r) else faults r)"
proof (induction n r rule: discard.induct)
  case (1 n r)
  define r1 where "r1 = (if rbuf r = [] then fill r else r)"
  have r1: "pending r1 = pending r" "faults r1 = faults r" by (simp_all add: r1_def)
  have end1: "pending r = []" if "rbuf r1 = []"
    using that fill_end(2) [of r] by (auto simp: r1_def pending_def split: if_splits)
  show ?case
  proof (cases "n = 0 \<or> rbuf r1 = []")
    case True
    then show ?thesis using end1 r1 by (auto simp: discard.simps [of n r] r1_def [symmetric])
  next
    case False
    let ?k = "min (length (rbuf r1)) n" and ?r = "r1\<lparr>rbuf := drop (min (length (rbuf r1)) n) (rbuf r1)\<rparr>"
    have p: "pending ?r = drop ?k (pending r)" unfolding r1(1) [symmetric] by (simp add: pending_def)
    have k: "?k \<le> length (pending r)" unfolding r1(1) [symmetric] by (simp add: pending_def)
    from False "1.IH" [OF _ r1_def refl] obtain r' where
      "discard (n - ?k) ?r = ((min (n - ?k) (length (pending ?r)),
         if length (pending ?r) < n - ?k then Some (rerr ?r) else None), r')"
      "pending r' = drop (n - ?k) (pending ?r)"
      "faults r' = (if length (pending ?r) < n - ?k then tl (faults ?r) else faults ?r)"
      by fastforce
    with False p k r1 show ?thesis
      by (auto simp: discard.simps [of n r] r1_def [symmetric] Let_def)
  qed
qed

interpretation bufio: byte_stream pending faults read_byte read_string peek discard
proof (unfold_locales, goal_cases)
  case (1 r c s) then show ?case by (rule read_byte_more)
next
  case (2 r) then show ?case by (rule read_byte_end)
next
  case (3 d s r t) then show ?case
    using read_string_acc_found [of d s r t "[]"] by (simp add: read_string_def)
next
  case (4 d r) then show ?case
    using read_string_acc_end [of d r "[]"] by (simp add: read_string_def)
next
  case (5 n r) then show ?case
    using peek_fill_law [of n r] by (simp add: peek_def Let_def)
next
  case (6 n r) show ?case by (rule discard_law)
qed

section \<open>What is left to be read\<close>

text \<open>Bytes and errors: no operation adds to them, and reading a byte takes one of them unless
  the input is over.\<close>

definition remaining :: "reader \<Rightarrow> nat" where
  "remaining r = length (pending r) + length (faults r)"

lemma remaining_upd: "remaining (reported r) \<le> remaining r"
  by (simp add: remaining_def)

lemma read_byte_remaining:
  assumes "read_byte r = (x, r')"
  shows "remaining r' \<le> remaining r" "x \<noteq> Err EOF \<Longrightarrow> remaining r' < remaining r"
  using assms by (cases rule: bufio.rbyte_cases [of r]; cases "faults r"; auto simp: remaining_def)+

lemma read_string_remaining: "read_string d r = (x, r') \<Longrightarrow> remaining r' \<le> remaining r"
  by (rule bufio.rstring_total [of d r]) (auto simp: remaining_def dest!: arg_cong [where f = length] split: if_splits)

lemma read_some_remaining:
  assumes "read_some n r = (x, r')"
  shows "remaining r' \<le> remaining r"
proof (cases x)
  case (Ret b)
  then show ?thesis using read_some_pending [of n r b r'] assms by (simp add: remaining_def)
next
  case (Err e)
  have "src_read n (rsrc r) = ([], cs) \<Longrightarrow> 0 < n \<Longrightarrow> concat cs = concat (rsrc r)" for cs
    using src_read_concat [of n "rsrc r" "[]" cs] by simp
  moreover have "length (pending (fill r)) = length (pending r)" if "rbuf r = []" using that by simp
  ultimately show ?thesis using assms Err
    by (auto simp: read_some_def remaining_def pending_def Let_def split: if_splits prod.splits)
next
  case Panic
  then show ?thesis using assms by (auto simp: read_some_def Let_def split: if_splits prod.splits)
qed

lemma peek_remaining: "peek n r = (x, r') \<Longrightarrow> n \<le> bufsize \<Longrightarrow> remaining r' \<le> remaining r"
  using bufio.rpeek_law [of n r] by (auto simp: remaining_def)

lemma discard_remaining: "discard n r = (x, r') \<Longrightarrow> remaining r' \<le> remaining r"
  using bufio.rdiscard_law [of n r] by (auto simp: remaining_def)

end
