(* ===== verification/Resp_Types.thy ===== *)
theory Resp_Types
  imports Strconv
begin

text \<open>
  The values of the redis wire protocol and how they are written
  (redis-go/app/resp/resp_types.go and the value builders of resp_helpers.go).
  The Go types that implement the interface \<open>RespType\<close> are the constructors of one
  datatype; \<open>as_resp_string\<close> is \<open>AsRespString\<close>.
\<close>

named_theorems resp_simps \<open>serialisation of protocol values\<close>

datatype resp =
    RespSimpleString string
  | RespError string
  | RespBulkString string
  | RespArray "resp list"
  | RespInteger int

fun resp_type :: "resp \<Rightarrow> string" where
  "resp_type (RespSimpleString _) = ''SimpleString''"
| "resp_type (RespError _) = ''Error''"
| "resp_type (RespBulkString _) = ''BulkString''"
| "resp_type (RespArray _) = ''Array''"
| "resp_type (RespInteger _) = ''Integer''"

text \<open>What \<open>PrettyPrint\<close> writes to standard output.\<close>

fun pretty_print :: "resp \<Rightarrow> string" where
  "pretty_print (RespSimpleString v) = ''type: SimpleString, value: '' @ v @ [LF]"
| "pretty_print (RespError m) = ''type: Error, value: '' @ m @ [LF]"
| "pretty_print (RespBulkString c) = ''type: BulkString, value: '' @ c @ [LF]"
| "pretty_print (RespArray es) =
     ''type: Array'' @ [LF] @ ''<---values'' @ concat (map pretty_print es) @ ''<---end'' @ [LF]"
| "pretty_print (RespInteger n) = ''type: Integer, value: '' @ itoa n @ [LF]"

fun as_resp_string :: "resp \<Rightarrow> string" where
  "as_resp_string (RespSimpleString v) = ''+'' @ v @ CRLF"
| "as_resp_string (RespError m) = ''-'' @ m @ CRLF"
| "as_resp_string (RespBulkString c) =
     (if length c = 0 then ''$-1'' @ CRLF
      else ''$'' @ itoa (int (length c)) @ CRLF @ c @ CRLF)"
| "as_resp_string (RespArray es) =
     ''*'' @ itoa (int (length es)) @ CRLF @ concat (map as_resp_string es)"
| "as_resp_string (RespInteger n) = '':'' @ itoa n @ CRLF"

section \<open>Builders\<close>

definition null_bulk_string :: resp where
  "null_bulk_string = RespBulkString []"

definition ok_response :: resp where
  "ok_response = RespSimpleString ''OK''"

definition psync_response :: "string \<Rightarrow> int \<Rightarrow> resp" where
  "psync_response replid offset =
     RespSimpleString (''FULLRESYNC '' @ replid @ '' '' @ itoa offset)"

definition ping_command :: resp where
  "ping_command = RespArray [RespBulkString ''PING'']"

definition ack_response :: "int \<Rightarrow> resp" where
  "ack_response offset =
     RespArray [RespBulkString ''REPLCONF'', RespBulkString ''ACK'', RespBulkString (itoa offset)]"

text \<open>An array of elements that are serialised already.\<close>

definition resp_arr_string_from_strings :: "string list \<Rightarrow> string" where
  "resp_arr_string_from_strings items = ''*'' @ itoa (int (length items)) @ CRLF @ concat items"

lemma resp_arr_string_from_strings_map:
  "resp_arr_string_from_strings (map as_resp_string es) = as_resp_string (RespArray es)"
  by (simp add: resp_arr_string_from_strings_def)

lemma as_resp_string_not_Nil [simp]: "as_resp_string v \<noteq> []"
  by (cases v) auto

section \<open>Values that survive a round trip\<close>

text \<open>
  \<open>wire_ok v\<close>: a value the parser of this program reads back. Simple strings hold no
  newline; bulk strings are not empty, because \<open>AsRespString\<close> writes an empty one as the
  null bulk string, and fit Go's \<open>make\<close>; errors and integers are written for clients
  and not read by \<open>Parse\<close>.
\<close>

fun wire_ok :: "resp \<Rightarrow> bool" where
  "wire_ok (RespSimpleString v) = (LF \<notin> set v)"
| "wire_ok (RespError _) = False"
| "wire_ok (RespBulkString c) = (c \<noteq> [])"
| "wire_ok (RespArray es) = list_all wire_ok es"
| "wire_ok (RespInteger _) = False"

lemma length_elements_le: "length es \<le> length (concat (map as_resp_string es))"
proof (induction es)
  case (Cons e es)
  have "1 \<le> length (as_resp_string e)" by (cases "as_resp_string e") auto
  with Cons show ?case by simp
qed simp

end
