(* ===== verification/Resp_Lexer.thy ===== *)
theory Resp_Lexer
  imports Resp_Types Bufio
begin

text \<open>
  The lexer (redis-go/app/resp/lexer.go): a buffered reader and the count of bytes the
  lexer has consumed. Each method takes the lexer and returns its result with the lexer
  after the call.
\<close>

datatype token_type =
  TokenSimpleString | TokenError | TokenBulkString | TokenArray | TokenInteger | TokenNull | TokenBool

record token =
  ttype :: token_type
  tvalue :: string

record lexer =
  lreader :: reader
  ByteCounter :: int

definition new_lexer :: "reader \<Rightarrow> lexer" where
  "new_lexer r = \<lparr>lreader = r, ByteCounter = 0\<rparr>"

text \<open>
  The rest of a line without its last two bytes. The error of \<open>ReadString\<close> is dropped;
  a line of fewer than two bytes makes the slice bound negative, which panics.
\<close>

definition read_line :: "lexer \<Rightarrow> string go \<times> lexer" where
  "read_line l =
     (case read_string LF (lreader l) of ((line, _), r) \<Rightarrow>
       (let l1 = l\<lparr>lreader := r, ByteCounter := ByteCounter l + int (length line)\<rparr> in
         if length line < 2 then (Panic, l1) else (Ret (take (length line - 2) line), l1)))"

definition line_token :: "token_type \<Rightarrow> lexer \<Rightarrow> token go \<times> lexer" where
  "line_token t l =
     (case read_line l of
        (Ret v, l') \<Rightarrow> (Ret \<lparr>ttype = t, tvalue = v\<rparr>, l')
      | (Err e, l') \<Rightarrow> (Err e, l')
      | (Panic, l') \<Rightarrow> (Panic, l'))"

definition next_token :: "lexer \<Rightarrow> token go \<times> lexer" where
  "next_token l =
     (case read_byte (lreader l) of (res, r) \<Rightarrow>
       (let l1 = l\<lparr>lreader := r, ByteCounter := ByteCounter l + 1\<rparr> in
         case res of
           Err e \<Rightarrow> (Err e, l1)
         | Panic \<Rightarrow> (Panic, l1)
         | Ret c \<Rightarrow>
             (if c = CHR ''+'' then line_token TokenSimpleString l1
              else if c = CHR ''-'' then line_token TokenError l1
              else if c = CHR ''$'' then line_token TokenBulkString l1
              else if c = CHR ''*'' then line_token TokenArray l1
              else if c = CHR '':'' then line_token TokenInteger l1
              else if c = CHR ''_'' then (Ret \<lparr>ttype = TokenNull, tvalue = []\<rparr>, l1)
              else if c = CHR ''#'' then line_token TokenBool l1
              else (Err (ErrorString (''unexpected character: '' @ itoa (of_char c))), l1))))"

definition consume_crlf :: "lexer \<Rightarrow> unit go \<times> lexer" where
  "consume_crlf l =
     (case peek 2 (lreader l) of
        ((bs, Some e), r) \<Rightarrow> (Err e, l\<lparr>lreader := r\<rparr>)
      | ((bs, None), r) \<Rightarrow>
          (if bs ! 0 = CR \<and> bs ! 1 = LF then
             (case discard 2 r of ((_, err), r') \<Rightarrow>
               (case err of None \<Rightarrow> Ret () | Some e \<Rightarrow> Err e,
                l\<lparr>lreader := r', ByteCounter := ByteCounter l + 2\<rparr>))
           else (Err ErrUnexpectedEOF, l\<lparr>lreader := r\<rparr>)))"

text \<open>One \<open>Read\<close> only: a short read is an error, and its bytes are gone but not counted.\<close>

definition consume_bytes :: "int \<Rightarrow> lexer \<Rightarrow> string go \<times> lexer" where
  "consume_bytes count l =
     (if \<not> make_ok 1 count then (Panic, l)
      else (case read_some (nat count) (lreader l) of
          (Err e, r) \<Rightarrow> (Err (Wrapped ''failed to consume bytes '' e), l\<lparr>lreader := r\<rparr>)
        | (Panic, r) \<Rightarrow> (Panic, l\<lparr>lreader := r\<rparr>)
        | (Ret bs, r) \<Rightarrow>
            (if int (length bs) \<noteq> count
             then (Err (ErrorString (''expected to read '' @ itoa count @ '' bytes but got ''
                     @ itoa (int (length bs)))), l\<lparr>lreader := r\<rparr>)
             else (Ret bs, l\<lparr>lreader := r, ByteCounter := ByteCounter l + count\<rparr>))))"

section \<open>Progress: what each method leaves to be read\<close>

abbreviation lpending :: "lexer \<Rightarrow> string" where
  "lpending l \<equiv> pending (lreader l)"

text \<open>
  \<open>consumes l l' n\<close>: between the two lexers \<open>n\<close> bytes were taken from the front of the
  input and counted.
\<close>

definition consumes :: "lexer \<Rightarrow> lexer \<Rightarrow> nat \<Rightarrow> bool" where
  "consumes l l' n \<longleftrightarrow>
     n \<le> length (lpending l) \<and> lpending l' = drop n (lpending l)
     \<and> ByteCounter l' = ByteCounter l + int n"

lemma consumes_trans [trans]:
  "consumes l l1 m \<Longrightarrow> consumes l1 l2 n \<Longrightarrow> consumes l l2 (m + n)"
  by (auto simp: consumes_def add.commute)

lemma consumes_refl [simp]: "consumes l l 0"
  by (simp add: consumes_def)

lemma read_line_consumes:
  assumes "read_line l = (Ret v, l')"
  obtains n where "consumes l l' n" "2 \<le> n"
proof -
  obtain s e r' where r: "read_string LF (lreader l) = ((s, e), r')" "lpending l = s @ pending r'"
    using bufio.rstring_total [of LF "lreader l"] by metis
  with assms show ?thesis
    by (intro that [of "length s"]) (auto simp: read_line_def consumes_def Let_def split: if_splits)
qed

lemma next_token_consumes:
  assumes "next_token l = (Ret tok, l')"
  obtains n where "consumes l l' n" "1 \<le> n"
proof -
  obtain c s r where r: "lpending l = c # s" "read_byte (lreader l) = (Ret c, r)" "pending r = s"
    using assms by (cases rule: bufio.rbyte_cases [of "lreader l"]) (auto simp: next_token_def Let_def)
  let ?l1 = "l\<lparr>lreader := r, ByteCounter := ByteCounter l + 1\<rparr>"
  have one: "consumes l ?l1 1" using r by (simp add: consumes_def)
  have line: thesis if "line_token t ?l1 = (Ret tok, l')" for t
  proof -
    from that obtain v where "read_line ?l1 = (Ret v, l')"
      by (auto simp: line_token_def split: prod.splits go.splits)
    then obtain n where "consumes ?l1 l' n" "2 \<le> n" by (rule read_line_consumes)
    with one show thesis by (auto intro!: \<open>\<And>n. consumes l l' n \<Longrightarrow> 1 \<le> n \<Longrightarrow> thesis\<close> dest: consumes_trans)
  qed
  show thesis
    using assms r one line that by (auto simp: next_token_def Let_def split: if_splits)
qed

lemma consume_bytes_consumes:
  assumes "consume_bytes k l = (Ret bs, l')"
  shows "consumes l l' (nat k)" "bs = take (nat k) (lpending l)" "0 \<le> k" "nat k = length bs"
proof -
  from assms obtain r where r: "read_some (nat k) (lreader l) = (Ret bs, r)" "int (length bs) = k"
    "l' = l\<lparr>lreader := r, ByteCounter := ByteCounter l + k\<rparr>" "0 \<le> k"
    by (auto simp: consume_bytes_def make_ok_def split: if_splits prod.splits go.splits)
  moreover from r(1) have "lpending l = bs @ pending r" by (rule read_some_pending)
  ultimately show "consumes l l' (nat k)" "bs = take (nat k) (lpending l)" "0 \<le> k" "nat k = length bs"
    by (auto simp: consumes_def)
qed

lemma consume_crlf_match:
  assumes "lpending l = CRLF @ t"
  shows "\<exists>l'. consume_crlf l = (Ret (), l') \<and> lpending l' = t \<and> ByteCounter l' = ByteCounter l + 2"
  using bufio.peek_discard_crlf [OF assms] by (auto simp: consume_crlf_def)

lemma consume_crlf_mismatch:
  assumes "take 2 (lpending l) \<noteq> CRLF"
  shows "\<exists>e l'. consume_crlf l = (Err e, l') \<and> lpending l' = lpending l \<and> ByteCounter l' = ByteCounter l"
proof -
  obtain r where r: "peek 2 (lreader l) =
      ((take 2 (lpending l), if length (lpending l) < 2 then Some (rerr (lreader l)) else None), r)"
    "pending r = lpending l"
    using bufio.rpeek_law [of 2 "lreader l"] by auto
  have "\<not> (take 2 (lpending l) ! 0 = CR \<and> take 2 (lpending l) ! 1 = LF)" if "\<not> length (lpending l) < 2"
    using that assms by (cases "lpending l"; cases "tl (lpending l)") (auto simp: numeral_2_eq_2)
  then show ?thesis using r by (auto simp: consume_crlf_def)
qed

lemma consume_crlf_consumes:
  assumes "consume_crlf l = (res, l')"
  obtains n where "consumes l l' n" "n = 0 \<or> (n = 2 \<and> take 2 (lpending l) = CRLF)"
proof (cases "take 2 (lpending l) = CRLF")
  case True
  then have "lpending l = CRLF @ drop 2 (lpending l)" by (metis append_take_drop_id)
  then have "consumes l l' 2" using consume_crlf_match [of l] assms
    by (auto simp: consumes_def dest: arg_cong [where f = length])
  with True show ?thesis by (intro that [of 2]) auto
next
  case False
  then show ?thesis using consume_crlf_mismatch [of l] assms by (intro that [of 0]) (auto simp: consumes_def)
qed

section \<open>A well-formed line\<close>

lemma read_line_crlf:
  assumes "LF \<notin> set s" "lpending l = s @ CRLF @ t"
  shows "\<exists>l'. read_line l = (Ret s, l') \<and> lpending l' = t \<and> ByteCounter l' = ByteCounter l + int (length s) + 2"
  using bufio.rstring_crlf [of s "lreader l" t] assms by (auto simp: read_line_def)

section \<open>What is left to be read\<close>

lemma read_line_remaining: "read_line l = (x, l') \<Longrightarrow> remaining (lreader l') \<le> remaining (lreader l)"
  by (auto simp: read_line_def Let_def dest: read_string_remaining split: prod.splits if_splits)

lemma line_token_remaining: "line_token t l = (x, l') \<Longrightarrow> remaining (lreader l') \<le> remaining (lreader l)"
  by (auto simp: line_token_def dest: read_line_remaining split: prod.splits go.splits)

lemma next_token_remaining:
  assumes "next_token l = (x, l')"
  shows "remaining (lreader l') \<le> remaining (lreader l)" "x \<noteq> Err EOF \<Longrightarrow> remaining (lreader l') < remaining (lreader l)"
proof -
  obtain y r where r: "read_byte (lreader l) = (y, r)" by fastforce
  let ?l1 = "l\<lparr>lreader := r, ByteCounter := ByteCounter l + 1\<rparr>"
  have "(y = Err EOF \<longrightarrow> x = Err EOF) \<and> remaining (lreader l') \<le> remaining r"
    using assms r line_token_remaining [of _ ?l1 x l']
    by (auto simp: next_token_def Let_def split: go.splits if_splits)
  with read_byte_remaining [OF r] show "remaining (lreader l') \<le> remaining (lreader l)"
    "x \<noteq> Err EOF \<Longrightarrow> remaining (lreader l') < remaining (lreader l)" by auto
qed

lemma consume_bytes_remaining: "consume_bytes k l = (x, l') \<Longrightarrow> remaining (lreader l') \<le> remaining (lreader l)"
  by (auto simp: consume_bytes_def dest: read_some_remaining split: prod.splits go.splits if_splits)

lemma consume_crlf_remaining:
  assumes "consume_crlf l = (x, l')"
  shows "remaining (lreader l') \<le> remaining (lreader l)"
proof -
  obtain bs e r where p: "peek 2 (lreader l) = ((bs, e), r)" by (metis prod.collapse)
  have "remaining r \<le> remaining (lreader l)" using peek_remaining [OF p] by simp
  moreover have "lreader l' = r \<or> (\<exists>y. discard 2 r = (y, lreader l'))"
    using assms p by (auto simp: consume_crlf_def split: option.splits prod.splits if_splits)
  ultimately show ?thesis using discard_remaining [of 2 r] by fastforce
qed

end
