(* ===== verification/Resp_Parser.thy ===== *)
theory Resp_Parser
  imports Resp_Lexer
begin

text \<open>
  The recursive-descent parser (redis-go/app/resp/parser.go). \<open>parse\<close>,
  \<open>parse_array\<close> and its element loop \<open>parse_elems\<close> call one another; the recursion ends
  because every value that parses takes at least one byte off the input, which is proved
  here before the termination of the three functions.
\<close>

section \<open>The parser\<close>

definition parse_bulk_string :: "token \<Rightarrow> lexer \<Rightarrow> resp go \<times> lexer" where
  "parse_bulk_string tok l =
     (case atoi (tvalue tok) of
        (count, Some e) \<Rightarrow>
          (Err (Wrapped ''invalid number of elements for resp array '' (NumError e)), l)
      | (count, None) \<Rightarrow>
          (case consume_bytes count l of
             (Err e, l1) \<Rightarrow> (Err (Wrapped ''failed to read bulk string '' e), l1)
           | (Panic, l1) \<Rightarrow> (Panic, l1)
           | (Ret str, l1) \<Rightarrow>
               (case consume_crlf l1 of (_, l2) \<Rightarrow> (Ret (RespBulkString str), l2))))"

function parse :: "lexer \<Rightarrow> resp go \<times> lexer"
  and parse_array :: "token \<Rightarrow> lexer \<Rightarrow> resp go \<times> lexer"
  and parse_elems :: "nat \<Rightarrow> lexer \<Rightarrow> resp list go \<times> lexer"
where
  "parse l =
     (case next_token l of
        (Err e, l1) \<Rightarrow>
          (Err (if e = EOF then EOF else Wrapped ''unable to parse next token '' e), l1)
      | (Panic, l1) \<Rightarrow> (Panic, l1)
      | (Ret tok, l1) \<Rightarrow>
          (if ttype tok = TokenSimpleString then (Ret (RespSimpleString (tvalue tok)), l1)
           else if ttype tok = TokenBulkString then parse_bulk_string tok l1
           else if ttype tok = TokenArray then parse_array tok l1
           else (Err (ErrorString ''unexpected type''), l1)))"
| "parse_array tok l =
     (case atoi (tvalue tok) of
        (count, Some e) \<Rightarrow>
          (Err (Wrapped ''invalid number of elements for resp array '' (NumError e)), l)
      | (count, None) \<Rightarrow>
          (if \<not> make_ok 16 count then (Panic, l)
           else (case parse_elems (nat count) l of
                   (Ret es, l1) \<Rightarrow> (Ret (RespArray es), l1)
                 | (Err e, l1) \<Rightarrow> (Err e, l1)
                 | (Panic, l1) \<Rightarrow> (Panic, l1))))"
| "parse_elems n l =
     (if n = 0 then (Ret [], l)
      else (case parse l of
              (Err e, l1) \<Rightarrow> (Err e, l1)
            | (Panic, l1) \<Rightarrow> (Panic, l1)
            | (Ret element, l1) \<Rightarrow>
                (case parse_elems (n - 1) l1 of
                   (Ret es, l2) \<Rightarrow> (Ret (element # es), l2)
                 | (Err e, l2) \<Rightarrow> (Err e, l2)
                 | (Panic, l2) \<Rightarrow> (Panic, l2))))"
  by pat_completeness auto

text \<open>
  \<open>takes k v l l'\<close>: the value \<open>v\<close> came from at least \<open>k\<close> bytes of input, and all the bytes
  between the two lexers are counted.
\<close>

definition takes :: "nat \<Rightarrow> lexer \<Rightarrow> lexer \<Rightarrow> bool" where
  "takes k l l' \<longleftrightarrow> (\<exists>n \<ge> k. consumes l l' n)"

lemma takes_trans: "takes j l l1 \<Longrightarrow> takes k l1 l2 \<Longrightarrow> takes (j + k) l l2"
  unfolding takes_def using consumes_trans add_mono by blast

lemma takes_weaken: "takes k l l' \<Longrightarrow> j \<le> k \<Longrightarrow> takes j l l'"
  unfolding takes_def by (meson order_trans)

lemma takes_remaining: "takes k l l' \<Longrightarrow> length (lpending l') + k \<le> length (lpending l)"
  by (auto simp: takes_def consumes_def)

lemma next_token_takes: "next_token l = (Ret tok, l') \<Longrightarrow> takes 1 l l'"
  unfolding takes_def by (meson next_token_consumes)

lemma parse_bulk_string_takes:
  assumes "parse_bulk_string tok l = (Ret v, l')" shows "takes 0 l l'"
proof -
  from assms obtain k bs l1 res where
    "consume_bytes k l = (Ret bs, l1)" "consume_crlf l1 = (res, l')"
    by (auto simp: parse_bulk_string_def split: prod.splits go.splits option.splits)
  then show ?thesis
    unfolding takes_def by (metis consume_bytes_consumes(1) consume_crlf_consumes consumes_trans zero_le)
qed

lemma parse_takes_dom:
  "parse_parse_array_parse_elems_dom (Inl l) \<Longrightarrow> parse l = (Ret v, l') \<Longrightarrow> takes 1 l l'"
  "parse_parse_array_parse_elems_dom (Inr (Inl (tok, l))) \<Longrightarrow>
     parse_array tok l = (Ret v, l') \<Longrightarrow> takes 0 l l'"
  "parse_parse_array_parse_elems_dom (Inr (Inr (n, l))) \<Longrightarrow>
     parse_elems n l = (Ret vs, l') \<Longrightarrow> takes 0 l l'"
proof (induction l and tok l and n l arbitrary: v l' and v l' and vs l'
       rule: parse_parse_array_parse_elems.pinduct)
  case (1 l)
  from 1(1,3) obtain tok l1 where t: "next_token l = (Ret tok, l1)"
    by (auto simp: parse.psimps split: prod.splits go.splits)
  have "takes 0 l1 l'"
    using 1(1,3) t 1(2) [OF t [symmetric] refl] parse_bulk_string_takes [of tok l1 v l']
    by (auto simp: parse.psimps takes_def intro: consumes_refl split: if_splits)
  with next_token_takes [OF t] show ?case
    using takes_trans by fastforce
next
  case (2 tok l)
  then show ?case
    by (auto simp: parse_array.psimps split: prod.splits go.splits option.splits if_splits)
next
  case (3 n l)
  show ?case
  proof (cases "n = 0")
    case True
    with 3(1,4) show ?thesis by (auto simp: parse_elems.psimps takes_def intro: consumes_refl)
  next
    case False
    with 3(1,4) obtain v l1 es where
      q: "parse l = (Ret v, l1)" "parse_elems (n - 1) l1 = (Ret es, l')"
      by (auto simp: parse_elems.psimps split: prod.splits go.splits)
    have "takes 1 l l1" by (rule 3(2) [OF False q(1)])
    moreover have "takes 0 l1 l'" by (rule 3(3) [OF False q(1) [symmetric] refl q(2)])
    ultimately show ?thesis
      using takes_trans [of 1 l l1 0 l'] takes_weaken [of 1 l l' 0] by simp
  qed
qed

lemma parse_total: "All parse_parse_array_parse_elems_dom"
proof (relation "measure (\<lambda>x. case x of
      Inl l \<Rightarrow> 3 * length (lpending l)
    | Inr (Inl (tok, l)) \<Rightarrow> 3 * length (lpending l) + 2
    | Inr (Inr (n, l)) \<Rightarrow> 3 * length (lpending l) + 1)", simp_all, goal_cases)
  case (1 l x y tok)
  then have "takes 1 l y" by (intro next_token_takes [of l tok]) simp
  from takes_remaining [OF this] show ?case by simp
next
  case (2 n l x y v)
  then have "takes 1 l y" by (intro parse_takes_dom(1) [of l v]) simp_all
  from takes_remaining [OF this] show ?case by simp
qed

termination parse by (rule parse_total)

declare parse.simps [simp del] parse_array.simps [simp del] parse_elems.simps [simp del]

lemma parse_takes: "parse l = (Ret v, l') \<Longrightarrow> takes 1 l l'"
  by (rule parse_takes_dom(1) [OF spec [OF parse_total]])

lemma parse_elems_takes: "parse_elems n l = (Ret vs, l') \<Longrightarrow> takes 0 l l'"
  by (rule parse_takes_dom(3) [OF spec [OF parse_total]])

lemma parse_elems_length: "parse_elems n l = (Ret vs, l') \<Longrightarrow> length vs = n"
proof (induction n arbitrary: l vs)
  case 0
  then show ?case by (simp add: parse_elems.simps [of 0 l])
next
  case (Suc n)
  then show ?case
    by (auto simp: parse_elems.simps [of "Suc n" l] split: prod.splits go.splits)
qed

lemma parse_remaining:
  "parse l = (v, l') \<Longrightarrow> remaining (lreader l') \<le> remaining (lreader l)
    \<and> (v \<noteq> Err EOF \<longrightarrow> remaining (lreader l') < remaining (lreader l))"
  "parse_array tok l = (v, l') \<Longrightarrow> remaining (lreader l') \<le> remaining (lreader l)"
  "parse_elems n l = (vs, l') \<Longrightarrow> remaining (lreader l') \<le> remaining (lreader l)"
proof (induction l and tok l and n l arbitrary: v l' and v l' and vs l' rule: parse_parse_array_parse_elems.induct)
  case (1 l)
  obtain x l1 where t: "next_token l = (x, l1)" by fastforce
  have bulk: "parse_bulk_string tok l1 = (v, l') \<Longrightarrow> remaining (lreader l') \<le> remaining (lreader l1)" for tok
    by (auto simp: parse_bulk_string_def dest!: consume_bytes_remaining consume_crlf_remaining
        split: prod.splits option.splits go.splits)
  show ?case
  proof (cases "\<exists>tok. x = Ret tok")
    case True
    then have "remaining (lreader l') \<le> remaining (lreader l1)"
      using "1.prems" t "1.IH" [OF t [symmetric]] bulk by (auto simp: parse.simps [of l] split: if_splits)
    with next_token_remaining [OF t] True show ?thesis by auto
  next
    case False
    then have "l' = l1 \<and> (x = Err EOF \<longrightarrow> v = Err EOF)"
      using "1.prems" t by (auto simp: parse.simps [of l] split: go.splits)
    with next_token_remaining [OF t] show ?thesis by auto
  qed
next
  case (2 tok l)
  then show ?case
    by (auto simp: parse_array.simps split: prod.splits go.splits option.splits if_splits)
next
  case (3 n l)
  show ?case
  proof (cases "n = 0")
    case False
    obtain x l1 where p: "parse l = (x, l1)" by fastforce
    have "remaining (lreader l1) \<le> remaining (lreader l)" using "3.IH"(1) [OF False p] by simp
    moreover have "remaining (lreader l') \<le> remaining (lreader l1)"
      using "3.prems" False p "3.IH"(2) [OF False p [symmetric]]
      by (auto simp: parse_elems.simps [of n l] split: prod.splits go.splits)
    ultimately show ?thesis by simp
  qed (use "3.prems" in \<open>simp add: parse_elems.simps [of 0 l]\<close>)
qed

section \<open>Operations on bytes that are in the buffer\<close>

text \<open>
  \<open>holding l s cs\<close> is the lexer \<open>l\<close> with \<open>s\<close> in its buffer and \<open>cs\<close> still to come;
  \<open>counting\<close> also moves the byte counter on.
\<close>

definition holding :: "lexer \<Rightarrow> string \<Rightarrow> lexer" where
  "holding l s = l\<lparr>lreader := (lreader l)\<lparr>rbuf := s\<rparr>\<rparr>"

definition counting :: "nat \<Rightarrow> lexer \<Rightarrow> lexer" where
  "counting n l = l\<lparr>ByteCounter := ByteCounter l + int n\<rparr>"

lemma lexer_upd_swap: "l\<lparr>ByteCounter := b, lreader := r\<rparr> = l\<lparr>lreader := r, ByteCounter := b\<rparr>"
  by simp

lemma holding_holding [simp]: "holding (holding l s) t = holding l t"
  by (simp add: holding_def)

lemma counting_holding [simp]: "counting n (holding l s) = holding (counting n l) s"
  by (simp add: holding_def counting_def)

lemma counting_counting [simp]: "counting m (counting n l) = counting (m + n) l"
  by (simp add: counting_def)

lemma counting_0 [simp]: "counting 0 l = l"
  by (simp add: counting_def)

lemma holding_sel [simp]:
  "rbuf (lreader (holding l s)) = s" "rsrc (lreader (holding l s)) = rsrc (lreader l)"
  "faults (lreader (holding l s)) = faults (lreader l)" "ByteCounter (holding l s) = ByteCounter l"
  "lpending (holding l s) = s @ concat (rsrc (lreader l))"
  by (simp_all add: holding_def pending_def)

lemma counting_sel [simp]:
  "lreader (counting n l) = lreader l" "ByteCounter (counting n l) = ByteCounter l + int n"
  by (simp_all add: counting_def)

lemma holding_self: "rbuf (lreader l) = s \<Longrightarrow> holding l s = l"
  by (auto simp: holding_def)

lemma read_line_holding:
  assumes "LF \<notin> set s"
  shows "read_line (holding l (s @ CRLF @ t)) = (Ret s, holding (counting (length s + 2) l) t)"
proof -
  have "LF \<notin> set (s @ [CR])" using assms by simp
  from takeWhile_neq_append [OF this] dropWhile_neq_append [OF this]
  show ?thesis
    by (simp add: read_line_def read_string_def read_string_acc.simps [of LF]
        holding_def counting_def)
qed

lemma line_token_holding:
  assumes "LF \<notin> set s"
  shows "line_token t (holding l (s @ CRLF @ u))
    = (Ret \<lparr>ttype = t, tvalue = s\<rparr>, holding (counting (length s + 2) l) u)"
  using read_line_holding [OF assms, of l u] by (simp add: line_token_def)

lemma next_token_holding:
  "next_token (holding l (c # s)) =
    (let l1 = holding (counting 1 l) s in
      if c = CHR ''+'' then line_token TokenSimpleString l1
      else if c = CHR ''-'' then line_token TokenError l1
      else if c = CHR ''$'' then line_token TokenBulkString l1
      else if c = CHR ''*'' then line_token TokenArray l1
      else if c = CHR '':'' then line_token TokenInteger l1
      else if c = CHR ''_'' then (Ret \<lparr>ttype = TokenNull, tvalue = []\<rparr>, l1)
      else if c = CHR ''#'' then line_token TokenBool l1
      else (Err (ErrorString (''unexpected character: '' @ itoa (of_char c))), l1))"
  by (simp add: next_token_def read_byte_def holding_def counting_def Let_def lexer_upd_swap)

lemma consume_bytes_holding:
  assumes "s \<noteq> []" "length s \<le> 281474976710656"
  shows "consume_bytes (int (length s)) (holding l (s @ t)) = (Ret s, holding (counting (length s) l) t)"
  using assms by (simp add: consume_bytes_def make_ok_def read_some_def holding_def counting_def)

lemma consume_crlf_holding:
  "consume_crlf (holding l (CRLF @ t)) = (Ret (), holding (counting 2 l) t)"
proof -
  have "discard 2 ((lreader l)\<lparr>rbuf := CR # LF # t\<rparr>) = ((2, None), (lreader l)\<lparr>rbuf := t\<rparr>)"
    by (subst discard.simps) (simp add: discard.simps [of 0] min_def Let_def)
  then show ?thesis
    by (simp add: consume_crlf_def peek_def peek_fill.simps [of 2] holding_def counting_def)
qed

section \<open>Round trip\<close>

lemma in_int64_length: "n \<le> 4096 \<Longrightarrow> in_int64 (int n)"
  by (simp add: in_int64_def)

text \<open>One element after the other, each as the induction hypothesis reads it.\<close>

lemma parse_elems_wire:
  assumes "\<And>v l t. v \<in> set vs \<Longrightarrow>
      parse (holding l (as_resp_string v @ t))
        = (Ret v, holding (counting (length (as_resp_string v)) l) t)"
  shows "parse_elems (length vs) (holding l (concat (map as_resp_string vs) @ t))
        = (Ret vs, holding (counting (length (concat (map as_resp_string vs))) l) t)"
  using assms
proof (induction vs arbitrary: l)
  case Nil
  then show ?case by (simp add: parse_elems.simps [of 0])
next
  case (Cons v vs)
  then show ?case by (simp add: parse_elems.simps [of "Suc (length vs)"] ac_simps)
qed

lemma parse_wire:
  "wire_ok v \<Longrightarrow> length (as_resp_string v) \<le> bufsize \<Longrightarrow>
     parse (holding l (as_resp_string v @ t))
       = (Ret v, holding (counting (length (as_resp_string v)) l) t)"
proof (induction v arbitrary: l t)
  case (RespSimpleString s)
  then show ?case
    using line_token_holding [of s _ "counting 1 l" t]
    by (simp add: parse.simps [of "holding l _"] next_token_holding)
next
  case (RespError s)
  then show ?case by simp
next
  case (RespBulkString s)
  let ?n = "itoa (int (length s))"
  have n: "length s \<le> 4096" "s \<noteq> []" using RespBulkString by auto
  then show ?case
    using line_token_holding [of ?n TokenBulkString "counting 1 l" "s @ CRLF @ t"]
      consume_bytes_holding [of s "counting (length ?n + 3) l" "CRLF @ t"]
      consume_crlf_holding [of "counting (length s) (counting (length ?n + 3) l)" t]
    by (simp add: parse.simps [of "holding l _"] next_token_holding parse_bulk_string_def
        in_int64_length numeral_3_eq_3 ac_simps)
next
  case (RespArray vs)
  let ?n = "itoa (int (length vs))" and ?c = "concat (map as_resp_string vs)"
  have n: "length vs \<le> 4096" using RespArray.prems(2) length_elements_le [of vs] by simp
  have fits: "length (as_resp_string v) \<le> length ?c" if "v \<in> set vs" for v
    using that by (induction vs) auto
  have "parse (holding m (as_resp_string v @ u))
      = (Ret v, holding (counting (length (as_resp_string v)) m) u)" if "v \<in> set vs" for v m u
    using RespArray that fits [OF that] by (auto simp: list_all_iff)
  then have elems: "parse_elems (length vs) (holding m (?c @ u))
      = (Ret vs, holding (counting (length ?c) m) u)" for m u
    by (rule parse_elems_wire)
  show ?case
    using n line_token_holding [of ?n TokenArray "counting 1 l" "?c @ t"]
      elems [of "counting (length ?n + 3) l" t]
    by (simp add: parse.simps [of "holding l _"] parse_array.simps next_token_holding
        in_int64_length make_ok_def numeral_3_eq_3 ac_simps)
next
  case (RespInteger n)
  then show ?case by simp
qed

section \<open>What a first read brings in\<close>

text \<open>With an empty buffer the first byte read brings the next piece in.\<close>

lemma read_byte_refill:
  assumes "rbuf r = []" "rsrc r = (c # s) # cs" "length (c # s) \<le> bufsize"
  shows "read_byte r = read_byte (r\<lparr>rsrc := cs, rbuf := c # s\<rparr>)"
  using assms by (simp add: read_byte_def fill_def)

lemma parse_refill:
  assumes "rbuf (lreader l) = []" "rsrc (lreader l) = s # cs" "s \<noteq> []" "length s \<le> bufsize"
  shows "parse l = parse (holding (l\<lparr>lreader := (lreader l)\<lparr>rsrc := cs\<rparr>\<rparr>) s)"
proof -
  obtain c s' where s: "s = c # s'" using assms(3) by (cases s) auto
  have "next_token l = next_token (holding (l\<lparr>lreader := (lreader l)\<lparr>rsrc := cs\<rparr>\<rparr>) s)"
    using read_byte_refill [of "lreader l" c s' cs] assms s
    by (simp add: next_token_def holding_def)
  then show ?thesis by (simp add: parse.simps [of l] parse.simps [of "holding _ _"])
qed

lemma parse_null_bulk: "fst (parse (holding l (''$-1'' @ CRLF @ t))) = Panic"
proof -
  have "itoa (-1) = ''-1''" by code_simp
  then have "atoi ''-1'' = (-1, None)" using atoi_itoa [of "-1"] by (simp add: in_int64_def)
  then show ?thesis
    using line_token_holding [of "''-1''" TokenBulkString "counting 1 l" t]
    by (simp add: parse.simps [of "holding _ _"] next_token_holding parse_bulk_string_def
        consume_bytes_def make_ok_def)
qed

section \<open>Properties\<close>

text \<open>C1. Round trip, for the values \<open>Parse\<close> can read: simple strings without a line feed, bulk
  strings that are not empty, and arrays of such values. What \<open>AsRespString\<close> writes for one of
  them, received in one piece that fits the buffer, is read back by \<open>Parse\<close>, which leaves the
  rest of the piece and later pieces to be read and counts exactly the bytes of the value.
  Errors and integers \<open>Parse\<close> rejects, and an empty bulk string crashes it.\<close>

theorem parse_reads_back:
  assumes "wire_ok v" "length (as_resp_string v @ t) \<le> bufsize"
    and "rbuf (lreader l) = []" "rsrc (lreader l) = (as_resp_string v @ t) # cs"
  shows "\<exists>l'. parse l = (Ret v, l') \<and> lpending l' = t @ concat cs
    \<and> ByteCounter l' = ByteCounter l + int (length (as_resp_string v))"
proof -
  have "parse l = (Ret v, holding (counting (length (as_resp_string v))
      (l\<lparr>lreader := (lreader l)\<lparr>rsrc := cs\<rparr>\<rparr>)) t)"
    using assms by (simp add: parse_refill [OF assms(3,4)] parse_wire)
  then show ?thesis by simp
qed

theorem parse_reads_back_witness:
  "\<exists>l'. parse (new_lexer (new_reader [''*2'' @ CRLF @ ''$4'' @ CRLF @ ''ECHO'' @ CRLF @ ''$2'' @ CRLF @ ''hi'' @ CRLF @ ''+x''] EOF))
     = (Ret (RespArray [RespBulkString ''ECHO'', RespBulkString ''hi'']), l')
     \<and> lpending l' = ''+x'' \<and> ByteCounter l' = 22"
proof -
  let ?v = "RespArray [RespBulkString ''ECHO'', RespBulkString ''hi'']"
  have "itoa 2 = ''2''" "itoa 4 = ''4''" by code_simp+
  then show ?thesis
    using parse_reads_back [of ?v "''+x''" "new_lexer (new_reader [as_resp_string ?v @ ''+x''] EOF)" "[]"]
    by (simp add: new_lexer_def new_reader_def)
qed

text \<open>C24. Accounting: whatever the input and however it arrives, a value \<open>Parse\<close> returns
  came from a non-empty front of the input, the rest is still to be read, and
  \<open>ByteCounter\<close> moved by exactly that number of bytes.\<close>

theorem parse_counts_its_bytes:
  assumes "parse l = (Ret v, l')"
  shows "\<exists>used. used \<noteq> [] \<and> lpending l = used @ lpending l'
    \<and> ByteCounter l' = ByteCounter l + int (length used)"
proof -
  obtain n where n: "1 \<le> n" "consumes l l' n" using parse_takes [OF assms] by (auto simp: takes_def)
  then show ?thesis by (intro exI [of _ "take n (lpending l)"]) (auto simp: consumes_def)
qed

theorem parse_counts_its_bytes_witness:
  "\<exists>l' used. parse (new_lexer (new_reader [''+O'', ''K'' @ CRLF @ ''$''] EOF)) = (Ret (RespSimpleString ''OK''), l') \<and> used \<noteq> [] \<and> lpending (new_lexer (new_reader [''+O'', ''K'' @ CRLF @ ''$''] EOF)) = used @ lpending l'
    \<and> ByteCounter l' = ByteCounter (new_lexer (new_reader [''+O'', ''K'' @ CRLF @ ''$''] EOF)) + int (length used)"
proof -
  have "fst (parse (new_lexer (new_reader [''+O'', ''K'' @ CRLF @ ''$''] EOF))) = Ret (RespSimpleString ''OK'')"
    by code_simp
  then obtain l' where "parse (new_lexer (new_reader [''+O'', ''K'' @ CRLF @ ''$''] EOF)) = (Ret (RespSimpleString ''OK''), l')"
    by (metis prod.collapse)
  from parse_counts_its_bytes [OF this] this show ?thesis by blast
qed

text \<open>C40. The null bulk string, which is also how \<open>AsRespString\<close> writes an empty bulk
  string, panics the parser wherever it meets it: the negative length reaches \<open>make\<close>.\<close>

theorem parse_null_bulk_panics:
  "fst (parse (holding l (as_resp_string (RespBulkString []) @ t))) = Panic"
  using parse_null_bulk [of l t] by simp

text \<open>Fragmentation: when the payload of a bulk string is only partly in the buffer,
  \<open>Parse\<close> fails, whatever is still to arrive, because \<open>ConsumeBytes\<close> asks once.\<close>

theorem parse_short_bulk_fails:
  assumes "p \<noteq> []" "length p < n" "n \<le> 281474976710656"
  shows "fst (parse (holding l (''$'' @ itoa (int n) @ CRLF @ p)))
    = Err (Wrapped ''failed to read bulk string '' (ErrorString (''expected to read '' @ itoa (int n)
        @ '' bytes but got '' @ itoa (int (length p)))))"
proof -
  have "in_int64 (int n)" using assms(3) by (simp add: in_int64_def)
  moreover have "consume_bytes (int n) (holding m p) = (Err (ErrorString (''expected to read '' @ itoa (int n)
        @ '' bytes but got '' @ itoa (int (length p)))), holding m [])" for m
    using assms by (simp add: consume_bytes_def make_ok_def read_some_def holding_def)
  ultimately show ?thesis
    using line_token_holding [of "itoa (int n)" TokenBulkString "counting 1 l" p]
    by (simp add: parse.simps [of "holding _ _"] next_token_holding parse_bulk_string_def)
qed

theorem parse_short_bulk_fails_witness:
  "fst (parse (holding (new_lexer (new_reader [''lo'' @ CRLF] EOF)) (''$5'' @ CRLF @ ''hel'')))
    = Err (Wrapped ''failed to read bulk string '' (ErrorString ''expected to read 5 bytes but got 3''))"
proof -
  have "itoa 5 = ''5''" "itoa 3 = ''3''" by code_simp+
  then show ?thesis
    using parse_short_bulk_fails [of "''hel''" 5 "new_lexer (new_reader [''lo'' @ CRLF] EOF)"] by simp
qed

end
