(* ===== verification/Stream_Id.thy ===== *)
theory Stream_Id
  imports Strconv
begin

text \<open>
  Entry IDs of redis streams: the text \<open><time>-<seq>\<close>, how the store splits it
  (\<open>SplitSeqKey\<close>) and how it orders two split IDs (\<open>compare\<close>), both of
  redis-go/app/store/kv_store.go. The order is the lexicographic one, which the type
  \<open>stream_id\<close> carries as an instance of \<open>linorder\<close>, so that the library's facts on
  sorted lists speak about streams.
\<close>

section \<open>The code\<close>

definition SplitSeqKey :: "string \<Rightarrow> int \<times> int" where
  "SplitSeqKey key =
     (if key = ''*'' then (0, 0)
      else let split = split_on (CHR ''-'') key;
               time = fst (atoi (split ! 0));
               seq = (if length split > 1 then fst (atoi (split ! 1)) else 0)
           in (time, seq))"

definition compare_ids :: "int \<Rightarrow> int \<Rightarrow> int \<Rightarrow> int \<Rightarrow> int" where
  "compare_ids ltime lseq rtime rseq =
     (if ltime = rtime \<and> lseq = rseq then 0
      else if ltime > rtime \<or> (ltime = rtime \<and> lseq \<ge> rseq) then -1
      else 1)"

text \<open>\<open>fmt.Sprintf ("%d-%d", t, s)\<close>.\<close>

definition render_id :: "int \<Rightarrow> int \<Rightarrow> string" where
  "render_id t s = itoa t @ ''-'' @ itoa s"

section \<open>IDs as an ordered type\<close>

datatype stream_id = SID (sid_time: int) (sid_seq: int)

instantiation stream_id :: linorder
begin

definition less_eq_stream_id :: "stream_id \<Rightarrow> stream_id \<Rightarrow> bool" where
  "less_eq_stream_id a b \<longleftrightarrow>
     sid_time a < sid_time b \<or> (sid_time a = sid_time b \<and> sid_seq a \<le> sid_seq b)"

definition less_stream_id :: "stream_id \<Rightarrow> stream_id \<Rightarrow> bool" where
  "less_stream_id a b \<longleftrightarrow>
     sid_time a < sid_time b \<or> (sid_time a = sid_time b \<and> sid_seq a < sid_seq b)"

instance
  by standard (auto simp: less_eq_stream_id_def less_stream_id_def stream_id.expand)

end

definition id_of :: "string \<Rightarrow> stream_id" where
  "id_of key = (case SplitSeqKey key of (t, s) \<Rightarrow> SID t s)"

section \<open>The code's comparison is the order of the type\<close>

lemma compare_ids_le: "compare_ids lt ls rt rs \<le> 0 \<longleftrightarrow> SID rt rs \<le> SID lt ls"
  by (auto simp: compare_ids_def less_eq_stream_id_def)

lemma compare_ids_less: "compare_ids lt ls rt rs < 0 \<longleftrightarrow> SID rt rs < SID lt ls"
  by (auto simp: compare_ids_def less_stream_id_def)

lemma compare_ids_ge: "compare_ids lt ls rt rs \<ge> 0 \<longleftrightarrow> SID lt ls \<le> SID rt rs"
  by (auto simp: compare_ids_def less_eq_stream_id_def)

lemma id_of_parts: "SplitSeqKey key = (t, s) \<Longrightarrow> id_of key = SID t s"
  by (simp add: id_of_def)

section \<open>Printing and splitting\<close>

text \<open>The IDs the store prints are those with both parts in this range.\<close>

definition id_range :: "int \<Rightarrow> int \<Rightarrow> bool" where
  "id_range t s \<longleftrightarrow> 0 \<le> t \<and> t \<le> max_int \<and> 0 \<le> s \<and> s \<le> max_int"

lemma split_render:
  assumes "id_range t s"
  shows "split_on (CHR ''-'') (render_id t s) = [itoa t, itoa s]"
  using assms by (simp add: render_id_def id_range_def split_on_append itoa_no_dash)

lemma SplitSeqKey_render [simp]:
  assumes "id_range t s"
  shows "SplitSeqKey (render_id t s) = (t, s)"
proof -
  have "length (render_id t s) > 1"
    by (cases "itoa t") (auto simp: render_id_def)
  then have "render_id t s \<noteq> ''*''" by auto
  then show ?thesis using assms split_render [OF assms]
    by (simp add: SplitSeqKey_def id_range_def in_int64_def)
qed

lemma id_of_render [simp]: "id_range t s \<Longrightarrow> id_of (render_id t s) = SID t s"
  by (simp add: id_of_def)

lemma render_id_not_Nil [simp]: "render_id t s \<noteq> []"
  by (simp add: render_id_def)

text \<open>No text splits into negative parts: the sign is the separator.\<close>

lemma SplitSeqKey_nonneg:
  assumes "SplitSeqKey key = (t, s)" shows "id_range t s"
proof -
  have "0 \<le> fst (atoi p)" if "p \<in> set (split_on (CHR ''-'') key)" for p
    using that by (intro atoi_nonneg) (rule split_on_parts_free)
  moreover have "split_on (CHR ''-'') key ! 0 \<in> set (split_on (CHR ''-'') key)"
    by (rule nth_mem) simp
  ultimately show ?thesis using assms atoi_range
    by (auto simp: SplitSeqKey_def id_range_def in_int64_def Let_def split: if_splits)
qed

end
