(* ===== verification/Kv_Store.thy ===== *)
theory Kv_Store
  imports Stream_Id
begin

text \<open>
  The key-value store (redis-go/app/store/kv_store.go). A stored \<open>interface{}\<close> is a
  \<open>go_value\<close>: the code stores strings and streams, and its handlers also ask for ints.
  The Go maps \<open>values\<close> and \<open>expiries\<close> are maps; where Go iterates over a map, the
  order is an argument. Each operation runs under the store's lock, so it is one step;
  the time an operation reads from the clock is its argument \<open>ms\<close>. The fields
  \<open>valqueue\<close> and \<open>expqueue\<close>, which no code touches, the lock and the logger are left
  out.
\<close>

section \<open>State\<close>

datatype go_value = VString string | VInt int | VStream "stream_entry list"
  and stream_entry = StreamEntry (Seqkey: string) (Values: "string \<Rightarrow> go_value option")

type_synonym stream = "stream_entry list"

record kv_store =
  kvalues :: "string \<rightharpoonup> go_value"
  expiries :: "string \<rightharpoonup> uint64"

definition new_kv_store :: kv_store where
  "new_kv_store = \<lparr>kvalues = Map.empty, expiries = Map.empty\<rparr>"

text \<open>Nanoseconds of the clock, divided as Go divides (towards zero), as a \<open>uint64\<close>.\<close>

definition current_millis :: "int \<Rightarrow> uint64" where
  "current_millis nanos = word_of_int (sgn nanos * (\<bar>nanos\<bar> div 1000000))"

section \<open>Plain keys\<close>

text \<open>
  \<open>Get\<close> returns the value (\<open>None\<close> is Go's nil) and whether it exists. On a key past its
  expiry it deletes the expiry, and only that, and reports the key as missing.
\<close>

definition kv_get :: "uint64 \<Rightarrow> string \<Rightarrow> kv_store \<Rightarrow> (go_value option \<times> bool) \<times> kv_store" where
  "kv_get ms key k =
     (case expiries k key of
        Some expiry \<Rightarrow>
          if ms > expiry
          then ((Some (VString []), False), k\<lparr>expiries := (expiries k)(key := None)\<rparr>)
          else ((kvalues k key, kvalues k key \<noteq> None), k)
      | None \<Rightarrow> ((kvalues k key, kvalues k key \<noteq> None), k))"

definition kv_list :: "(string set \<Rightarrow> string list) \<Rightarrow> kv_store \<Rightarrow> string list" where
  "kv_list order k = order (dom (kvalues k))"

definition kv_set :: "uint64 \<Rightarrow> string \<Rightarrow> go_value \<Rightarrow> uint64 \<Rightarrow> kv_store \<Rightarrow> kv_store" where
  "kv_set ms key v expiry k =
     (let k1 = (if expiry \<noteq> 0 then k\<lparr>expiries := (expiries k)(key \<mapsto> ms + expiry)\<rparr> else k)
      in k1\<lparr>kvalues := (kvalues k1)(key \<mapsto> v)\<rparr>)"

section \<open>Streams\<close>

definition err_invalid_stream :: go_error where
  "err_invalid_stream = ErrorString ''expected stream to be a stream''"

definition err_stream_not_exists :: go_error where
  "err_stream_not_exists = ErrorString ''stream doesn't exist''"

definition err_xadd_zero :: go_error where
  "err_xadd_zero = ErrorString ''ERR The ID specified in XADD must be greater than 0-0''"

definition err_xadd_small :: go_error where
  "err_xadd_small = ErrorString
     ''ERR The ID specified in XADD is equal or smaller than the target stream top item''"

text \<open>
  The ID a client asks for: time, sequence number, and whether the sequence number is a
  wildcard, which is any text \<open>Atoi\<close> rejects. Text without a dash takes the clock.
\<close>

definition requested_id :: "uint64 \<Rightarrow> string \<Rightarrow> int \<times> int \<times> bool" where
  "requested_id ms seqkey =
     (let split = split_on (CHR ''-'') seqkey in
       if length split = 1 then (sint ms, 0, False)
       else
         let rtime = fst (atoi (split ! 0));
             (r, rseqerr) = atoi (split ! 1);
             rseqwildcard = (rseqerr \<noteq> None)
         in (rtime, if rseqwildcard \<and> rtime = 0 then 1 else r, rseqwildcard))"

definition SetStream ::
  "uint64 \<Rightarrow> string \<Rightarrow> string \<Rightarrow> string \<Rightarrow> go_value \<Rightarrow> kv_store \<Rightarrow> string go \<times> kv_store" where
  "SetStream ms streamkey seqkey key v k =
     (let k1 = (if kvalues k streamkey = None
                then k\<lparr>kvalues := (kvalues k)(streamkey \<mapsto> VStream [])\<rparr> else k) in
      case kvalues k1 streamkey of
        Some (VStream cast) \<Rightarrow>
          (let (rtime, rseq, rseqwildcard) = requested_id ms seqkey;
               store = (\<lambda>s. (Ret (render_id rtime s),
                 k1\<lparr>kvalues := (kvalues k1)(streamkey \<mapsto>
                   VStream (cast @ [StreamEntry (render_id rtime s) [key \<mapsto> v]]))\<rparr>))
           in
           if rtime \<le> 0 \<and> rseq \<le> 0 then (Err err_xadd_zero, k1)
           else if cast = [] then store rseq
           else
             let split = split_on (CHR ''-'') (Seqkey (last cast)) in
             if length split < 2 then (Panic, k1)
             else
               let ltime = fst (atoi (split ! 0));
                   lseq = fst (atoi (split ! 1));
                   rseq' = (if rseqwildcard \<and> rtime = ltime then wrap_int (lseq + 1) else rseq)
               in if ltime > rtime \<or> (ltime = rtime \<and> lseq \<ge> rseq')
                  then (Err err_xadd_small, k1)
                  else store rseq')
      | _ \<Rightarrow> (Err err_invalid_stream, k1))"

text \<open>The index loops of the range queries. \<open>findl\<close> and \<open>xreadfindl\<close> keep 0, and
  \<open>findr\<close> the index of the last entry, when no entry qualifies.\<close>

fun findl_from :: "int \<Rightarrow> int \<Rightarrow> nat \<Rightarrow> stream \<Rightarrow> int" where
  "findl_from st ss i [] = 0"
| "findl_from st ss i (e # es) =
     (case SplitSeqKey (Seqkey e) of (ct, cs) \<Rightarrow>
       if compare_ids ct cs st ss \<le> 0 then int i else findl_from st ss (i + 1) es)"

definition findl :: "string \<Rightarrow> stream \<Rightarrow> int" where
  "findl start s =
     (if start = ''-'' then 0
      else case SplitSeqKey start of (st, ss) \<Rightarrow> findl_from st ss 0 s)"

fun findr_from :: "int \<Rightarrow> int \<Rightarrow> stream \<Rightarrow> nat \<Rightarrow> int" where
  "findr_from et es s 0 = int (length s) - 1"
| "findr_from et es s (Suc i) =
     (case SplitSeqKey (Seqkey (s ! i)) of (ct, cs) \<Rightarrow>
       if compare_ids ct cs et es \<ge> 0 then int i + 1 else findr_from et es s i)"

definition findr :: "string \<Rightarrow> stream \<Rightarrow> int" where
  "findr end s =
     (if end = ''+'' then int (length s)
      else case SplitSeqKey end of (et, es) \<Rightarrow> findr_from et es s (length s))"

fun xreadfindl_from :: "int \<Rightarrow> int \<Rightarrow> nat \<Rightarrow> stream \<Rightarrow> int" where
  "xreadfindl_from st ss i [] = 0"
| "xreadfindl_from st ss i (e # es) =
     (case SplitSeqKey (Seqkey e) of (ct, cs) \<Rightarrow>
       if compare_ids ct cs st ss < 0 then int i else xreadfindl_from st ss (i + 1) es)"

definition xreadfindl :: "string \<Rightarrow> stream \<Rightarrow> int" where
  "xreadfindl start s =
     (case SplitSeqKey start of (st, ss) \<Rightarrow> xreadfindl_from st ss 0 s)"

text \<open>A slice expression \<open>xs[l:r]\<close>; its bounds are checked.\<close>

definition slice :: "int \<Rightarrow> int \<Rightarrow> 'a list \<Rightarrow> 'a list go" where
  "slice l r xs =
     (if 0 \<le> l \<and> l \<le> r \<and> r \<le> int (length xs)
      then Ret (take (nat r - nat l) (drop (nat l) xs)) else Panic)"

definition GetStream :: "string \<Rightarrow> string \<Rightarrow> string \<Rightarrow> kv_store \<Rightarrow> stream go" where
  "GetStream streamkey start end k =
     (case kvalues k streamkey of
        None \<Rightarrow> Err err_stream_not_exists
      | Some (VStream cast) \<Rightarrow> slice (findl start cast) (findr end cast) cast
      | Some _ \<Rightarrow> Err err_invalid_stream)"

definition XReadStream :: "string \<Rightarrow> string \<Rightarrow> kv_store \<Rightarrow> stream go" where
  "XReadStream streamkey start k =
     (case kvalues k streamkey of
        None \<Rightarrow> Err err_stream_not_exists
      | Some (VStream cast) \<Rightarrow> slice (xreadfindl start cast) (int (length cast)) cast
      | Some _ \<Rightarrow> Err err_invalid_stream)"

section \<open>The contract of the plain keys\<close>

text \<open>
  What the command handlers rely on: \<open>look\<close> is the value a key was last given, \<open>live\<close>
  says that the key has no expiry in the past of \<open>t\<close>. The law of \<open>get\<close> on a dead key is
  the code's: the key is live again afterwards, and its value is still there.
\<close>

locale expiring_store =
  fixes get :: "uint64 \<Rightarrow> 'k \<Rightarrow> 's \<Rightarrow> ('v option \<times> bool) \<times> 's"
    and put :: "uint64 \<Rightarrow> 'k \<Rightarrow> 'v \<Rightarrow> uint64 \<Rightarrow> 's \<Rightarrow> 's"
    and look :: "'s \<Rightarrow> 'k \<Rightarrow> 'v option"
    and live :: "uint64 \<Rightarrow> 'k \<Rightarrow> 's \<Rightarrow> bool"
  assumes get_live: "live t k s \<Longrightarrow> get t k s = ((look s k, look s k \<noteq> None), s)"
    and get_dead: "\<not> live t k s \<Longrightarrow>
      \<exists>d s'. get t k s = ((Some d, False), s') \<and> look s' = look s
        \<and> (\<forall>t' k'. live t' k' s' \<longleftrightarrow> k' = k \<or> live t' k' s)"
    and look_put: "look (put t k v e s) = (look s)(k \<mapsto> v)"
    and live_put: "live t' k' (put t k v e s) \<longleftrightarrow>
      (if k' = k \<and> e \<noteq> 0 then t' \<le> t + e else live t' k' s)"
begin

lemma get_look [simp]: "look (snd (get t k s)) = look s"
  using get_live [of t k s] get_dead [of t k s] by (cases "live t k s") auto

lemma get_exists_iff: "snd (fst (get t k s)) \<longleftrightarrow> live t k s \<and> look s k \<noteq> None"
  using get_live [of t k s] get_dead [of t k s] by (cases "live t k s") auto

lemma get_after_put:
  "e = 0 \<Longrightarrow> live t' k s \<Longrightarrow> fst (get t' k (put t k v e s)) = (Some v, True)"
  by (simp add: get_live live_put look_put)

lemma get_after_timed_put:
  "e \<noteq> 0 \<Longrightarrow> snd (fst (get t' k (put t k v e s))) \<longleftrightarrow> t' \<le> t + e"
  by (simp add: get_exists_iff live_put look_put)

lemma get_frame:
  "k' \<noteq> k \<Longrightarrow> fst (get t' k' (put t k v e s)) = fst (get t' k' s) \<or> \<not> live t' k' s"
  by (cases "live t' k' s") (simp_all add: get_live live_put look_put)

text \<open>A second \<open>get\<close> of an expired key finds the old value.\<close>

lemma get_revives:
  assumes "\<not> live t k s" "look s k = Some v"
  shows "snd (fst (get t k s)) = False" "fst (get t' k (snd (get t k s))) = (Some v, True)"
  using get_dead [OF assms(1)] assms(2) by (auto simp: get_live)

end

definition kv_live :: "uint64 \<Rightarrow> string \<Rightarrow> kv_store \<Rightarrow> bool" where
  "kv_live t key k = (case expiries k key of None \<Rightarrow> True | Some expiry \<Rightarrow> t \<le> expiry)"

interpretation kv: expiring_store kv_get kv_set kvalues kv_live
proof (unfold_locales, goal_cases)
  case (1 t k s) then show ?case by (auto simp: kv_live_def kv_get_def split: option.splits)
next
  case (2 t k s) then show ?case by (auto simp: kv_live_def kv_get_def split: option.splits)
next
  case (3 t k v e s) then show ?case by (simp add: kv_set_def Let_def)
next
  case (4 t' k' t k v e s) then show ?case by (simp add: kv_live_def kv_set_def Let_def)
qed

lemma kv_set_expiries_0 [simp]: "expiries (kv_set ms key v 0 k) = expiries k"
  by (simp add: kv_set_def)

section \<open>Properties\<close>

text \<open>C25. What \<open>Get\<close> answers after a \<open>Set\<close>: the key set holds the value until the
  deadline of an expiry that was given, or, without one, for as long as an expiry it had
  before allows; every other key answers as it did.\<close>

theorem get_after_set:
  "fst (kv_get t' key' (kv_set t key v e k)) =
    (if key' \<noteq> key then fst (kv_get t' key' k)
     else if (if e \<noteq> 0 then t' \<le> t + e else kv_live t' key k) then (Some v, True)
     else (Some (VString []), False))"
  by (cases "key' = key")
     (auto simp: kv_get_def kv_set_def kv_live_def Let_def split: option.splits)

text \<open>C39. Expiry deletes the deadline and not the value: the first \<open>Get\<close> of an expired
  key misses, every later one finds the old value again.\<close>

theorem expired_key_revives:
  assumes "expiries k key = Some x" "x < ms" "kvalues k key = Some v"
  shows "fst (kv_get ms key k) = (Some (VString []), False)
    \<and> fst (kv_get ms' key (snd (kv_get ms key k))) = (Some v, True)"
  using assms kv.get_revives(2) [of ms key k v ms'] by (auto simp: kv_get_def kv_live_def)

theorem expired_key_revives_witness:
  "fst (kv_get 151 ''k'' (kv_set 50 ''k'' (VString ''v'') 100 new_kv_store)) = (Some (VString []), False)
   \<and> fst (kv_get 152 ''k'' (snd (kv_get 151 ''k'' (kv_set 50 ''k'' (VString ''v'') 100 new_kv_store))))
     = (Some (VString ''v''), True)"
  using expired_key_revives [of "kv_set 50 ''k'' (VString ''v'') 100 new_kv_store" "''k''" 150 151 "VString ''v''" 152]
  by (simp add: kv_set_def new_kv_store_def)

end
