(* ===== verification/Kv_Streams.thy ===== *)
theory Kv_Streams
  imports Kv_Store
begin

text \<open>
  The invariant of stored streams and what the stream operations of the store do under
  it: every entry carries an ID the store printed, and the IDs increase strictly.
  \<open>SetStream\<close> keeps that, also when it refuses an entry; the range queries return the
  entries of the range whenever some entry is at or past each bound.
\<close>

section \<open>The invariant\<close>

abbreviation eid :: "stream_entry \<Rightarrow> stream_id" where
  "eid e \<equiv> id_of (Seqkey e)"

definition entry_ok :: "stream_entry \<Rightarrow> bool" where
  "entry_ok e = (case SplitSeqKey (Seqkey e) of (t, s) \<Rightarrow> Seqkey e = render_id t s)"

definition stream_ok :: "stream \<Rightarrow> bool" where
  "stream_ok s \<longleftrightarrow> list_all entry_ok s \<and> sorted_wrt (<) (map eid s)"

definition store_ok :: "kv_store \<Rightarrow> bool" where
  "store_ok k \<longleftrightarrow> (\<forall>key s. kvalues k key = Some (VStream s) \<longrightarrow> stream_ok s)"

lemma entry_okD:
  assumes "entry_ok e"
  obtains t s where "Seqkey e = render_id t s" "id_range t s" "eid e = SID t s"
  using assms by (auto simp: entry_ok_def id_of_def dest: SplitSeqKey_nonneg split: prod.splits)

lemma entry_ok_render [simp]: "id_range t s \<Longrightarrow> entry_ok (StreamEntry (render_id t s) vs)"
  by (simp add: entry_ok_def)

lemma stream_ok_Nil [simp]: "stream_ok []"
  by (simp add: stream_ok_def)

lemma stream_ok_last:
  assumes "stream_ok s" "s \<noteq> []"
  obtains t n where "Seqkey (last s) = render_id t n" "id_range t n" "eid (last s) = SID t n"
proof -
  have "entry_ok (last s)" using assms by (auto simp: stream_ok_def list_all_iff)
  then show thesis by (rule entry_okD) (rule that)
qed

lemma stream_ok_snoc:
  "stream_ok (s @ [e]) \<longleftrightarrow> stream_ok s \<and> entry_ok e \<and> (s \<noteq> [] \<longrightarrow> eid (last s) < eid e)"
proof (cases s rule: rev_cases)
  case Nil
  then show ?thesis by (simp add: stream_ok_def)
next
  case (snoc s' x)
  then show ?thesis
    by (auto simp: stream_ok_def sorted_wrt_append intro: less_trans)
qed

lemma store_ok_new [simp]: "store_ok new_kv_store"
  by (simp add: store_ok_def new_kv_store_def)

lemma store_ok_get [simp]: "store_ok (snd (kv_get ms key k)) = store_ok k"
  by (simp add: store_ok_def)

lemma store_ok_set:
  "store_ok k \<Longrightarrow> (\<And>s. v = VStream s \<Longrightarrow> stream_ok s) \<Longrightarrow> store_ok (kv_set ms key v e k)"
  by (auto simp: store_ok_def kv.look_put)

section \<open>Adding an entry\<close>

lemma requested_id_range:
  assumes "requested_id ms seqkey = (t, s, w)" "\<not> (t \<le> 0 \<and> s \<le> 0)"
  shows "id_range t s"
proof -
  have nn: "0 \<le> fst (atoi p) \<and> fst (atoi p) \<le> max_int" if "p \<in> set (split_on (CHR ''-'') seqkey)" for p
    using atoi_nonneg [of p] atoi_range [of p] split_on_parts_free [OF that] by (simp add: in_int64_def)
  show ?thesis
  proof (cases "length (split_on (CHR ''-'') seqkey) = 1")
    case True
    moreover have "sint ms \<le> max_int"
      using sint_lt [of ms] by simp
    ultimately show ?thesis using assms by (auto simp: requested_id_def id_range_def Let_def)
  next
    case False
    then have "1 < length (split_on (CHR ''-'') seqkey)"
      by (metis One_nat_def Suc_lessI length_greater_0_conv split_on_not_Nil)
    then have "split_on (CHR ''-'') seqkey ! 0 \<in> set (split_on (CHR ''-'') seqkey)"
      "split_on (CHR ''-'') seqkey ! 1 \<in> set (split_on (CHR ''-'') seqkey)"
      by (auto intro: nth_mem)
    with nn have "0 \<le> fst (atoi (split_on (CHR ''-'') seqkey ! 0))"
      "fst (atoi (split_on (CHR ''-'') seqkey ! 0)) \<le> max_int"
      "0 \<le> fst (atoi (split_on (CHR ''-'') seqkey ! 1))"
      "fst (atoi (split_on (CHR ''-'') seqkey ! 1)) \<le> max_int"
      by blast+
    with False assms(1) show ?thesis
      by (auto simp: requested_id_def id_range_def Let_def split: prod.splits if_splits)
  qed
qed

text \<open>The stream a key names: none yet is an empty one.\<close>

definition stream_at :: "kv_store \<Rightarrow> string \<Rightarrow> stream option" where
  "stream_at k key =
     (case kvalues k key of None \<Rightarrow> Some [] | Some (VStream s) \<Rightarrow> Some s | Some _ \<Rightarrow> None)"

lemma SetStream_not_stream:
  "stream_at k sk = None \<Longrightarrow> SetStream ms sk seqkey key v k = (Err err_invalid_stream, k)"
  by (auto simp: stream_at_def SetStream_def split: option.splits go_value.splits)

text \<open>The sequence number \<open>SetStream\<close> settles on after it looked at the last entry.\<close>

definition settled_seq :: "stream \<Rightarrow> int \<Rightarrow> int \<Rightarrow> bool \<Rightarrow> int" where
  "settled_seq cast t s w =
     (if cast \<noteq> [] \<and> w \<and> t = sid_time (eid (last cast))
      then wrap_int (sid_seq (eid (last cast)) + 1) else s)"

definition put_stream :: "string \<Rightarrow> stream \<Rightarrow> kv_store \<Rightarrow> kv_store" where
  "put_stream sk s k = k\<lparr>kvalues := (kvalues k)(sk \<mapsto> VStream s)\<rparr>"

lemma kvalues_put_stream [simp]: "kvalues (put_stream sk s k) = (kvalues k)(sk \<mapsto> VStream s)"
  and expiries_put_stream [simp]: "expiries (put_stream sk s k) = expiries k"
  by (simp_all add: put_stream_def)

text \<open>
  \<open>SetStream\<close> on a well-formed stream in one equation. A refused entry still leaves the
  key with a stream: the empty one when the key was new.
\<close>

lemma SetStream_eq:
  assumes "stream_at k sk = Some cast" "stream_ok cast" "requested_id ms seqkey = (t, s, w)"
  shows "SetStream ms sk seqkey key v k =
    (let s' = settled_seq cast t s w in
      if t \<le> 0 \<and> s \<le> 0 then (Err err_xadd_zero, put_stream sk cast k)
      else if cast \<noteq> [] \<and> SID t s' \<le> eid (last cast)
      then (Err err_xadd_small, put_stream sk cast k)
      else (Ret (render_id t s'), put_stream sk (cast @ [StreamEntry (render_id t s') [key \<mapsto> v]]) k))"
proof -
  let ?k = "if kvalues k sk = None then k\<lparr>kvalues := (kvalues k)(sk \<mapsto> VStream [])\<rparr> else k"
  have k: "?k = put_stream sk cast k" "kvalues ?k sk = Some (VStream cast)"
    using assms(1) by (auto simp: stream_at_def put_stream_def fun_upd_idem split: option.splits go_value.splits)
  show ?thesis
  proof (cases "cast = []")
    case True
    with k assms(3) show ?thesis
      by (simp add: SetStream_def settled_seq_def Let_def put_stream_def)
  next
    case False
    with assms(2) obtain lt ls where l: "Seqkey (last cast) = render_id lt ls" "id_range lt ls"
      "eid (last cast) = SID lt ls" by (rule stream_ok_last)
    then have split: "split_on (CHR ''-'') (Seqkey (last cast)) = [itoa lt, itoa ls]"
      by (simp add: split_render)
    have "in_int64 lt" "in_int64 ls" using l(2) by (auto simp: id_range_def in_int64_def)
    with False k assms(3) split l show ?thesis
      by (auto simp: SetStream_def settled_seq_def Let_def put_stream_def less_eq_stream_id_def)
  qed
qed

lemma settled_seq_range:
  assumes "id_range t s" "stream_ok cast" "cast \<noteq> [] \<Longrightarrow> eid (last cast) < SID t (settled_seq cast t s w)"
  shows "id_range t (settled_seq cast t s w)"
proof (cases "cast \<noteq> [] \<and> w \<and> t = sid_time (eid (last cast))")
  case True
  with assms(2) obtain lt ls where l: "id_range lt ls" "eid (last cast) = SID lt ls"
    by (metis stream_ok_last)
  have "in_int64 (settled_seq cast t s w)" using True by (simp add: settled_seq_def wrap_int_range)
  with True l assms(1,3) show ?thesis
    by (auto simp: id_range_def in_int64_def less_stream_id_def)
next
  case False
  then show ?thesis using assms(1) by (auto simp: settled_seq_def)
qed

text \<open>Every outcome, with what it stores.\<close>

lemma SetStream_cases:
  assumes "store_ok k"
  obtains (no_stream) "stream_at k sk = None" "SetStream ms sk seqkey key v k = (Err err_invalid_stream, k)"
  | (refused) e cast where "stream_at k sk = Some cast" "stream_ok cast"
      "SetStream ms sk seqkey key v k = (Err (ErrorString e), put_stream sk cast k)"
  | (added) t s cast where "stream_at k sk = Some cast" "stream_ok cast" "id_range t s"
      "SID 0 0 < SID t s" "\<And>e. e \<in> set cast \<Longrightarrow> eid e < SID t s"
      "stream_ok (cast @ [StreamEntry (render_id t s) [key \<mapsto> v]])"
      "SetStream ms sk seqkey key v k =
        (Ret (render_id t s), put_stream sk (cast @ [StreamEntry (render_id t s) [key \<mapsto> v]]) k)"
proof (cases "stream_at k sk")
  case None
  then show thesis using no_stream SetStream_not_stream by blast
next
  case (Some cast)
  then have ok: "stream_ok cast" using assms
    by (auto simp: stream_at_def store_ok_def split: option.splits go_value.splits)
  obtain t s w where r: "requested_id ms seqkey = (t, s, w)" by (metis prod_cases3)
  let ?s = "settled_seq cast t s w"
  note eq = SetStream_eq [OF Some ok r, of key v]
  show thesis
  proof (cases "(t \<le> 0 \<and> s \<le> 0) \<or> (cast \<noteq> [] \<and> SID t ?s \<le> eid (last cast))")
    case True
    with eq Some ok show thesis
      by (auto simp: Let_def err_xadd_zero_def err_xadd_small_def intro!: refused split: if_splits)
  next
    case False
    then have gt: "cast \<noteq> [] \<Longrightarrow> eid (last cast) < SID t ?s" by auto
    have "id_range t s" using r False by (intro requested_id_range) auto
    then have range: "id_range t ?s" using ok gt by (rule settled_seq_range)
    have snoc: "stream_ok (cast @ [StreamEntry (render_id t ?s) [key \<mapsto> v]])"
      using ok range gt by (simp add: stream_ok_snoc)
    have newer: "eid e < SID t ?s" if "e \<in> set cast" for e
      using snoc that range by (auto simp: stream_ok_def sorted_wrt_append)
    have pos: "SID 0 0 < SID t ?s"
    proof (cases "?s = s")
      case True
      then show ?thesis using False range by (auto simp: id_range_def less_stream_id_def)
    next
      case False
      then have "cast \<noteq> []" by (auto simp: settled_seq_def split: if_splits)
      moreover with ok obtain lt ls where "id_range lt ls" "eid (last cast) = SID lt ls"
        by (metis stream_ok_last)
      ultimately show ?thesis using gt by (auto simp: id_range_def less_stream_id_def)
    qed
    from eq False have "SetStream ms sk seqkey key v k =
        (Ret (render_id t ?s), put_stream sk (cast @ [StreamEntry (render_id t ?s) [key \<mapsto> v]]) k)"
      by (auto simp: Let_def)
    with Some ok range pos newer snoc show thesis by (intro added)
  qed
qed

lemma store_ok_put_stream: "store_ok k \<Longrightarrow> stream_ok s \<Longrightarrow> store_ok (put_stream sk s k)"
  by (auto simp: store_ok_def)

lemma store_ok_SetStream: "store_ok k \<Longrightarrow> store_ok (snd (SetStream ms sk seqkey key v k))"
  by (cases rule: SetStream_cases [of k sk ms seqkey key v]) (auto intro: store_ok_put_stream)

lemma SetStream_no_panic: "store_ok k \<Longrightarrow> fst (SetStream ms sk seqkey key v k) \<noteq> Panic"
  by (cases rule: SetStream_cases [of k sk ms seqkey key v]) auto

section \<open>Types of the stored values\<close>

text \<open>
  The handlers store strings and streams of entries with one string field each; the
  conversions of the handlers' type switches rest on it.
\<close>

fun value_typed :: "go_value \<Rightarrow> bool" where
  "value_typed (VString _) = True"
| "value_typed (VInt _) = False"
| "value_typed (VStream s) = list_all (\<lambda>e. \<exists>k v. Values e = [k \<mapsto> VString v]) s"

definition typed_store :: "kv_store \<Rightarrow> bool" where
  "typed_store k \<longleftrightarrow> (\<forall>key v. kvalues k key = Some v \<longrightarrow> value_typed v)"

lemma typed_store_new [simp]: "typed_store new_kv_store"
  by (simp add: typed_store_def new_kv_store_def)

lemma typed_store_get [simp]: "typed_store (snd (kv_get ms key k)) = typed_store k"
  by (simp add: typed_store_def)

lemma typed_store_set: "typed_store k \<Longrightarrow> typed_store (kv_set ms key (VString v) e k)"
  by (auto simp: typed_store_def kv.look_put)

lemma typed_store_put_stream:
  "typed_store k \<Longrightarrow> value_typed (VStream s) \<Longrightarrow> typed_store (put_stream sk s k)"
  by (auto simp: typed_store_def)

lemma typed_stream_at: "typed_store k \<Longrightarrow> stream_at k sk = Some s \<Longrightarrow> value_typed (VStream s)"
  by (fastforce simp: typed_store_def stream_at_def split: option.splits go_value.splits)

lemma typed_store_SetStream:
  assumes "store_ok k" "typed_store k"
  shows "typed_store (snd (SetStream ms sk seqkey key (VString v) k))"
proof (cases rule: SetStream_cases [OF assms(1), of sk ms seqkey key "VString v",
      case_names no_stream refused added])
  case no_stream
  then show ?thesis using assms(2) by simp
next
  case (refused e cast)
  then show ?thesis using typed_store_put_stream [OF assms(2) typed_stream_at [OF assms(2)]] by simp
next
  case (added t s cast)
  have "value_typed (VStream (cast @ [StreamEntry (render_id t s) [key \<mapsto> VString v]]))"
    using typed_stream_at [OF assms(2) added(1)] by auto
  then show ?thesis using added assms(2) by (simp add: typed_store_put_stream del: value_typed.simps)
qed

section \<open>Properties\<close>

text \<open>C20. A successful \<open>SetStream\<close> on a well-formed store appends exactly the new entry
  to the stream of the key, under the printed form of an ID greater than 0-0 and than
  every ID of the stream, which is the text returned; no other key and no expiry
  changes, and the store is well formed again.\<close>

theorem xadd_appends_newest:
  assumes "store_ok k" "SetStream ms sk seqkey key v k = (Ret res, k')"
  shows "\<exists>cast t s. stream_at k sk = Some cast \<and> res = render_id t s \<and> id_of res = SID t s
    \<and> SID 0 0 < id_of res \<and> (\<forall>e \<in> set cast. id_of (Seqkey e) < id_of res)
    \<and> kvalues k' = (kvalues k)(sk \<mapsto> VStream (cast @ [StreamEntry res [key \<mapsto> v]]))
    \<and> expiries k' = expiries k \<and> store_ok k'"
proof (cases rule: SetStream_cases [OF assms(1), of sk ms seqkey key v, case_names no_stream refused added])
  case (added t s cast)
  then show ?thesis using assms store_ok_SetStream [OF assms(1), of ms sk seqkey key v] by auto
qed (use assms(2) in auto)

theorem xadd_appends_newest_witness:
  "\<exists>k' cast t s. SetStream 7 ''st'' ''5-1'' ''f'' (VString ''v'') new_kv_store = (Ret ''5-1'', k')
    \<and> stream_at new_kv_store ''st'' = Some cast \<and> ''5-1'' = render_id t s \<and> id_of ''5-1'' = SID t s
    \<and> SID 0 0 < id_of ''5-1'' \<and> (\<forall>e \<in> set cast. id_of (Seqkey e) < id_of ''5-1'')
    \<and> kvalues k' = (kvalues new_kv_store)(''st'' \<mapsto> VStream (cast @ [StreamEntry ''5-1'' [''f'' \<mapsto> VString ''v'']]))
    \<and> expiries k' = expiries new_kv_store \<and> store_ok k'"
proof -
  have id: "''5-1'' = render_id 5 1" by code_simp
  have r: "requested_id 7 ''5-1'' = (5, 1, False)"
    unfolding id by (simp add: requested_id_def split_render id_range_def in_int64_def)
  have "\<exists>k'. SetStream 7 ''st'' ''5-1'' ''f'' (VString ''v'') new_kv_store = (Ret ''5-1'', k')"
    using SetStream_eq [of new_kv_store "''st''" "[]", OF _ _ r] id
    by (simp add: stream_at_def new_kv_store_def settled_seq_def)
  then show ?thesis using xadd_appends_newest [OF store_ok_new] by blast
qed

text \<open>C38. A refused \<open>SetStream\<close> adds no entry to any stream and touches no expiry, but a
  key that did not exist is left holding an empty stream.\<close>

theorem xadd_refused_keeps_entries:
  assumes "store_ok k" "SetStream ms sk seqkey key v k = (Err e, k')"
  shows "stream_at k' = stream_at k \<and> expiries k' = expiries k
    \<and> (kvalues k sk = None \<longrightarrow> kvalues k' sk = Some (VStream []))"
proof (cases rule: SetStream_cases [OF assms(1), of sk ms seqkey key v, case_names no_stream refused added])
  case no_stream
  then show ?thesis using assms(2) by (auto simp: stream_at_def split: option.splits)
next
  case (refused e cast)
  then show ?thesis using assms(2) by (auto simp: stream_at_def fun_eq_iff)
qed (use assms(2) in auto)

theorem xadd_refused_keeps_entries_witness:
  "\<exists>k'. SetStream 7 ''st'' ''0-0'' ''f'' (VString ''v'') new_kv_store = (Err err_xadd_zero, k')
    \<and> stream_at k' = stream_at new_kv_store \<and> expiries k' = expiries new_kv_store
    \<and> kvalues k' ''st'' = Some (VStream [])"
proof -
  have id: "''0-0'' = render_id 0 0" by code_simp
  have r: "requested_id 7 ''0-0'' = (0, 0, False)"
    unfolding id by (simp add: requested_id_def split_render id_range_def in_int64_def)
  have "\<exists>k'. SetStream 7 ''st'' ''0-0'' ''f'' (VString ''v'') new_kv_store = (Err err_xadd_zero, k')"
    using SetStream_eq [of new_kv_store "''st''" "[]", OF _ _ r]
    by (simp add: stream_at_def new_kv_store_def)
  moreover have "kvalues new_kv_store ''st'' = None" by (simp add: new_kv_store_def)
  ultimately show ?thesis using xadd_refused_keeps_entries [OF store_ok_new] by blast
qed

end
