(* ===== verification/Kv_Ranges.thy ===== *)
theory Kv_Ranges
  imports Kv_Streams
begin

text \<open>
  The range queries of the store on well-formed streams: XRANGE's \<open>GetStream\<close> and
  XREAD's \<open>XReadStream\<close>. Both compute slice bounds with a loop that keeps a default
  when no entry qualifies; with a qualifying entry for each bound the slice is the range,
  and without one the default shows.
\<close>

section \<open>Sorted lists cut by a predicate\<close>

text \<open>
  A predicate that is closed upwards holds on a suffix of a sorted list, one that is
  closed downwards on a prefix.
\<close>

lemma dropWhile_sorted_all:
  assumes "sorted_wrt R xs" "\<And>x y. R x y \<Longrightarrow> P x \<Longrightarrow> P y"
    and "x \<in> set (dropWhile (\<lambda>x. \<not> P x) xs)"
  shows "P x"
  using assms by (induction xs) (auto split: if_splits)

lemma filter_sorted_prefix:
  assumes "sorted_wrt R xs" "\<And>x y. R x y \<Longrightarrow> Q y \<Longrightarrow> Q x"
  shows "filter Q xs = takeWhile Q xs"
  using assms(1)
proof (induction xs)
  case (Cons a xs)
  have "filter Q xs = []" if "\<not> Q a"
    using Cons.prems that assms(2) by (auto simp: filter_empty_conv)
  then show ?case using Cons by auto
qed simp

lemma takeWhile_True [simp]: "takeWhile (\<lambda>_. True) xs = xs"
  by (simp add: takeWhile_eq_all_conv)

lemma sorted_wrt_dropWhile: "sorted_wrt R xs \<Longrightarrow> sorted_wrt R (dropWhile P xs)"
  by (induction xs) auto

text \<open>The slice between the first element that is high enough and the end of the prefix
  that is low enough is the filtered list, when every element that is too low is not too
  high.\<close>

lemma slice_sorted:
  assumes sorted: "sorted_wrt R xs"
    and up: "\<And>x y. R x y \<Longrightarrow> P x \<Longrightarrow> P y"
    and down: "\<And>x y. R x y \<Longrightarrow> Q y \<Longrightarrow> Q x"
    and low: "\<And>x. x \<in> set xs \<Longrightarrow> \<not> P x \<Longrightarrow> Q x"
  shows "slice (int (length (takeWhile (\<lambda>x. \<not> P x) xs))) (int (length (takeWhile Q xs))) xs
    = Ret (filter (\<lambda>x. P x \<and> Q x) xs)"
proof -
  let ?A = "takeWhile (\<lambda>x. \<not> P x) xs" and ?B = "dropWhile (\<lambda>x. \<not> P x) xs"
  have A: "\<not> P x \<and> Q x" if "x \<in> set ?A" for x
    using that low by (auto dest: set_takeWhileD)
  have B: "P x" if "x \<in> set ?B" for x
    using sorted up that by (rule dropWhile_sorted_all)
  have tw: "takeWhile Q xs = ?A @ takeWhile Q ?B"
    using A takeWhile_append2 [of ?A Q ?B] by simp
  have "filter (\<lambda>x. P x \<and> Q x) ?A = []" using A by (auto simp only: filter_empty_conv)
  moreover have "filter (\<lambda>x. P x \<and> Q x) ?B = filter Q ?B" 
    by (rule filter_cong [OF refl]) (blast dest: B)
  moreover have "filter (\<lambda>x. P x \<and> Q x) xs = filter (\<lambda>x. P x \<and> Q x) (?A @ ?B)"
    by (simp only: takeWhile_dropWhile_id)
  ultimately have "filter (\<lambda>x. P x \<and> Q x) xs = filter Q ?B"
    by (simp only: filter_append append_Nil)
  also have "\<dots> = takeWhile Q ?B"
    by (rule filter_sorted_prefix [OF sorted_wrt_dropWhile [OF sorted]]) (rule down)
  also have "\<dots> = drop (length ?A) (take (length (takeWhile Q xs)) xs)"
  proof -
    have "take (length (takeWhile Q xs)) xs = takeWhile Q xs"
      by (rule takeWhile_eq_take [symmetric])
    moreover have "drop (length ?A) (?A @ takeWhile Q ?B) = takeWhile Q ?B"
      by (rule append_eq_conv_conj [THEN iffD1, OF refl, THEN conjunct2, symmetric])
    ultimately show ?thesis by (simp only: tw)
  qed
  finally have "filter (\<lambda>x. P x \<and> Q x) xs
      = take (length (takeWhile Q xs) - length ?A) (drop (length ?A) xs)"
    by (simp add: drop_take)
  moreover have "length ?A \<le> length (takeWhile Q xs)" by (simp add: tw)
  moreover have "length (takeWhile Q xs) \<le> length xs" by (rule length_takeWhile_le)
  ultimately show ?thesis by (simp add: slice_def)
qed

section \<open>The index loops\<close>

lemma findl_from_found:
  "\<exists>e \<in> set es. SID st ss \<le> eid e \<Longrightarrow>
   findl_from st ss i es = int (i + length (takeWhile (\<lambda>e. \<not> SID st ss \<le> eid e) es))"
  by (induction es arbitrary: i) (auto simp: compare_ids_le id_of_def split: prod.splits)

lemma findl_from_none:
  "\<forall>e \<in> set es. \<not> SID st ss \<le> eid e \<Longrightarrow> findl_from st ss i es = 0"
  by (induction es arbitrary: i) (auto simp: compare_ids_le id_of_def split: prod.splits)

lemma xreadfindl_from_found:
  "\<exists>e \<in> set es. SID st ss < eid e \<Longrightarrow>
   xreadfindl_from st ss i es = int (i + length (takeWhile (\<lambda>e. \<not> SID st ss < eid e) es))"
  by (induction es arbitrary: i) (auto simp: compare_ids_less id_of_def split: prod.splits)

lemma xreadfindl_from_none:
  "\<forall>e \<in> set es. \<not> SID st ss < eid e \<Longrightarrow> xreadfindl_from st ss i es = 0"
  by (induction es arbitrary: i) (auto simp: compare_ids_less id_of_def split: prod.splits)

lemma findr_from_step:
  "findr_from et es s (Suc i) = (if eid (s ! i) \<le> SID et es then int i + 1 else findr_from et es s i)"
  by (auto simp: compare_ids_ge id_of_def split: prod.splits)

declare findr_from.simps(2) [simp del]

lemma findr_from_none:
  "\<forall>j < i. \<not> eid (s ! j) \<le> SID et es \<Longrightarrow> findr_from et es s i = int (length s) - 1"
  by (induction i) (auto simp: findr_from_step)

lemma findr_from_found:
  assumes "0 < m" "eid (s ! (m - 1)) \<le> SID et es" "\<forall>j. m \<le> j \<and> j < i \<longrightarrow> \<not> eid (s ! j) \<le> SID et es" "m \<le> i"
  shows "findr_from et es s i = int m"
  using assms
proof (induction i)
  case (Suc i)
  show ?case
  proof (cases "m = Suc i")
    case True
    then show ?thesis using Suc.prems by (simp add: findr_from_step)
  next
    case False
    then show ?thesis using Suc by (simp add: findr_from_step)
  qed
qed simp

section \<open>Bounds of a query\<close>

definition from_start :: "string \<Rightarrow> stream_entry \<Rightarrow> bool" where
  "from_start start e \<longleftrightarrow> start = ''-'' \<or> id_of start \<le> eid e"

definition upto_end :: "string \<Rightarrow> stream_entry \<Rightarrow> bool" where
  "upto_end end e \<longleftrightarrow> end = ''+'' \<or> eid e \<le> id_of end"

definition ordered_bounds :: "string \<Rightarrow> string \<Rightarrow> bool" where
  "ordered_bounds start end \<longleftrightarrow> start = ''-'' \<or> end = ''+'' \<or> id_of start \<le> id_of end"

lemma stream_ok_sorted: "stream_ok s \<Longrightarrow> sorted_wrt (\<lambda>a b. eid a < eid b) s"
  by (simp add: stream_ok_def sorted_wrt_map)

lemma findl_found:
  assumes "\<exists>e \<in> set s. from_start start e"
  shows "findl start s = int (length (takeWhile (\<lambda>e. \<not> from_start start e) s))"
proof (cases "start = ''-''")
  case True
  then show ?thesis by (simp add: findl_def from_start_def takeWhile_eq_Nil_iff)
next
  case False
  obtain st ss where p: "SplitSeqKey start = (st, ss)" by fastforce
  with False have "from_start start = (\<lambda>e. SID st ss \<le> eid e)"
    by (auto simp: from_start_def id_of_parts)
  then show ?thesis using False p assms findl_from_found [of s st ss 0] by (simp add: findl_def)
qed

lemma findl_none:
  assumes "\<forall>e \<in> set s. \<not> from_start start e" shows "findl start s = 0"
proof -
  obtain st ss where p: "SplitSeqKey start = (st, ss)" by fastforce
  then show ?thesis using assms findl_from_none [of s st ss 0]
    by (auto simp: findl_def from_start_def id_of_parts)
qed

lemma findr_found:
  assumes "stream_ok s" "\<exists>e \<in> set s. upto_end end e"
  shows "findr end s = int (length (takeWhile (upto_end end) s))"
proof (cases "end = ''+''")
  case True
  then have "upto_end end = (\<lambda>_. True)" by (auto simp: upto_end_def)
  then show ?thesis using True by (simp add: findr_def)
next
  case False
  obtain et es where p: "SplitSeqKey end = (et, es)" by fastforce
  then have b: "upto_end end e \<longleftrightarrow> eid e \<le> SID et es" for e using False by (simp add: upto_end_def id_of_def)
  let ?m = "length (takeWhile (upto_end end) s)"
  have sorted: "sorted_wrt (\<lambda>a b. eid a < eid b) s" using assms(1) by (rule stream_ok_sorted)
  have down: "upto_end end x" if "eid x < eid y" "upto_end end y" for x y
    using that by (auto simp: upto_end_def)
  have fl: "filter (upto_end end) s = takeWhile (upto_end end) s"
    using sorted by (rule filter_sorted_prefix) (rule down)
  then have m: "0 < ?m" using assms(2) by (simp add: filter_empty_conv flip: fl)
  have at: "upto_end end (s ! (?m - 1))"
    using m by (metis diff_less less_numeral_extra(1) nth_mem set_takeWhileD takeWhile_nth)
  have rest: "\<not> upto_end end (s ! j)" if "?m \<le> j" "j < length s" for j
  proof
    assume "upto_end end (s ! j)"
    have "s ! ?m = s ! j \<or> eid (s ! ?m) < eid (s ! j)"
      using sorted that by (cases "?m = j") (auto simp: sorted_wrt_iff_nth_less)
    with \<open>upto_end end (s ! j)\<close> have "upto_end end (s ! ?m)" by (auto intro: down)
    moreover have "\<not> upto_end end (s ! ?m)" using that by (intro nth_length_takeWhile) simp
    ultimately show False by simp
  qed
  have "findr_from et es s (length s) = int ?m"
    using m at rest length_takeWhile_le by (intro findr_from_found) (auto simp: b)
  then show ?thesis using False p by (simp add: findr_def)
qed

lemma findr_none:
  assumes "\<forall>e \<in> set s. \<not> upto_end end e"
  shows "findr end s = int (length s) - 1 \<or> (s = [] \<and> end = ''+'')"
proof (cases "end = ''+''")
  case True
  with assms show ?thesis by (cases s) (auto simp: upto_end_def)
next
  case False
  obtain et es where p: "SplitSeqKey end = (et, es)" by fastforce
  have "\<forall>j < length s. \<not> eid (s ! j) \<le> SID et es"
    using assms p False by (auto simp: upto_end_def id_of_def)
  from findr_from_none [OF this] show ?thesis using False p by (simp add: findr_def)
qed

section \<open>XRANGE\<close>

lemma GetStream_range:
  assumes "kvalues k sk = Some (VStream s)" "stream_ok s"
    and "\<exists>e \<in> set s. from_start start e" "\<exists>e \<in> set s. upto_end end e" "ordered_bounds start end"
  shows "GetStream sk start end k = Ret (filter (\<lambda>e. from_start start e \<and> upto_end end e) s)"
proof -
  have "slice (int (length (takeWhile (\<lambda>e. \<not> from_start start e) s))) (int (length (takeWhile (upto_end end) s))) s
      = Ret (filter (\<lambda>e. from_start start e \<and> upto_end end e) s)"
    using stream_ok_sorted [OF assms(2)] assms(5)
    by (intro slice_sorted [where R = "\<lambda>a b. eid a < eid b"])
       (auto simp: from_start_def upto_end_def ordered_bounds_def)
  then show ?thesis using assms by (simp add: GetStream_def findl_found findr_found)
qed

text \<open>When every entry is too old the query answers with all of them.\<close>

lemma GetStream_past_end:
  assumes "kvalues k sk = Some (VStream s)" "stream_ok s" "s \<noteq> []"
    and "\<forall>e \<in> set s. \<not> from_start start e" "ordered_bounds start end"
  shows "GetStream sk start end k = Ret s"
proof -
  have b: "upto_end end e" if "e \<in> set s" for e
    using that assms(4,5) by (auto simp: from_start_def upto_end_def ordered_bounds_def)
  then have all: "takeWhile (upto_end end) s = s" by (simp add: takeWhile_eq_all_conv)
  have "\<exists>e \<in> set s. upto_end end e" using b assms(3) by (cases s) auto
  then have "findr end s = int (length s)" using findr_found [OF assms(2), of "end"] by (simp only: all)
  then show ?thesis using assms by (simp add: GetStream_def findl_none slice_def)
qed

text \<open>Bounds the wrong way round can make the slice bounds cross.\<close>

lemma GetStream_crossed:
  assumes "kvalues k sk = Some (VStream s)" "stream_ok s"
    and "e \<in> set s" "from_start start e" "\<not> upto_end end e"
    and "\<forall>x \<in> set s. from_start start x \<longrightarrow> e = x \<or> eid e < eid x"
    and "x \<in> set s" "\<not> from_start start x" "\<not> upto_end end x" "\<exists>y \<in> set s. upto_end end y"
  shows "GetStream sk start end k = Panic"
proof -
  have sorted: "sorted_wrt (\<lambda>a b. eid a < eid b) s" using assms(2) by (rule stream_ok_sorted)
  let ?A = "takeWhile (\<lambda>e. \<not> from_start start e) s" and ?Q = "takeWhile (upto_end end) s"
  have "x \<in> set ?A"
  proof (rule ccontr)
    assume "x \<notin> set ?A"
    then have "x \<in> set (dropWhile (\<lambda>e. \<not> from_start start e) s)"
      using assms(7) by (metis Un_iff set_append takeWhile_dropWhile_id)
    moreover have "from_start start b" if "eid a < eid b" "from_start start a" for a b
      using that by (auto simp: from_start_def)
    ultimately have "from_start start x"
      by (metis dropWhile_sorted_all [OF sorted])
    with assms(8) show False by simp
  qed
  then obtain j where j: "j < length ?A" "?A ! j = x" by (auto simp: in_set_conv_nth)
  then have "s ! j = x" by (simp add: takeWhile_nth)
  with assms(9) have "length ?Q \<le> j"
    by (metis linorder_not_le nth_mem set_takeWhileD takeWhile_nth)
  with j have "length ?Q < length ?A" by simp
  moreover have "findl start s = int (length ?A)" using assms(3,4) by (intro findl_found) blast
  moreover have "findr end s = int (length ?Q)" using assms(2,10) by (rule findr_found)
  ultimately have "slice (findl start s) (findr end s) s = Panic" by (simp add: slice_def)
  then show ?thesis using assms(1) by (simp add: GetStream_def)
qed

text \<open>An empty stream, which a refused XADD leaves behind, has no slice up to a bound.\<close>

lemma GetStream_empty:
  assumes "kvalues k sk = Some (VStream [])" "end \<noteq> ''+''"
  shows "GetStream sk start end k = Panic"
  using assms by (simp add: GetStream_def findr_def slice_def findl_def split: prod.splits)

section \<open>XREAD\<close>

lemma XReadStream_newer:
  assumes "kvalues k sk = Some (VStream s)" "stream_ok s" "\<exists>e \<in> set s. id_of start < eid e"
  shows "XReadStream sk start k = Ret (filter (\<lambda>e. id_of start < eid e) s)"
proof -
  have "slice (int (length (takeWhile (\<lambda>e. \<not> id_of start < eid e) s))) (int (length (takeWhile (\<lambda>_. True) s))) s
      = Ret (filter (\<lambda>e. id_of start < eid e \<and> True) s)"
    using stream_ok_sorted [OF assms(2)]
    by (intro slice_sorted [where R = "\<lambda>a b. eid a < eid b"]) auto
  moreover obtain st ss where p: "SplitSeqKey start = (st, ss)" by fastforce
  then have "xreadfindl start s = int (length (takeWhile (\<lambda>e. \<not> id_of start < eid e) s))"
    using assms(3) xreadfindl_from_found [of s st ss 0] by (simp add: xreadfindl_def id_of_parts)
  ultimately show ?thesis using assms(1) by (simp add: XReadStream_def)
qed

lemma XReadStream_none_newer:
  assumes "kvalues k sk = Some (VStream s)" "\<forall>e \<in> set s. \<not> id_of start < eid e"
  shows "XReadStream sk start k = Ret s"
proof -
  obtain st ss where p: "SplitSeqKey start = (st, ss)" by fastforce
  then have "xreadfindl start s = 0"
    using assms(2) xreadfindl_from_none [of s st ss 0] by (simp add: xreadfindl_def id_of_parts)
  then show ?thesis using assms(1) by (simp add: XReadStream_def slice_def)
qed

lemma XReadStream_no_panic: "XReadStream sk start k \<noteq> Panic"
proof -
  have "0 \<le> xreadfindl_from st ss i s \<and> xreadfindl_from st ss i s \<le> int i + int (length s)" for st ss i s
  proof (induction s arbitrary: i)
    case (Cons e s)
    from Cons.IH [of "i + 1"] show ?case by (auto split: prod.splits)
  qed simp
  from this [of _ _ 0] have "0 \<le> xreadfindl start s \<and> xreadfindl start s \<le> int (length s)" for s
    by (auto simp: xreadfindl_def split: prod.splits)
  then show ?thesis by (auto simp: XReadStream_def slice_def split: option.splits go_value.splits)
qed

section \<open>Properties\<close>

text \<open>C21. XRANGE's \<open>GetStream\<close>: when some entry is not below the start, some entry is not
  above the end and the bounds are in order, the result is exactly the entries of the
  stream within the bounds, in order.\<close>

theorem xrange_is_filter:
  assumes "kvalues k sk = Some (VStream s)" "store_ok k" "ordered_bounds start end"
    and "\<exists>e \<in> set s. from_start start e" "\<exists>e \<in> set s. upto_end end e"
  shows "GetStream sk start end k = Ret (filter (\<lambda>e. from_start start e \<and> upto_end end e) s)"
  using assms by (intro GetStream_range) (auto simp: store_ok_def)

definition three_entries :: stream where
  "three_entries = map (\<lambda>n. StreamEntry (render_id n 0) Map.empty) [1, 2, 3]"

lemma three_entries_ok: "stream_ok three_entries"
  by (simp add: three_entries_def stream_ok_def id_range_def less_stream_id_def)

definition three_store :: kv_store where
  "three_store = put_stream ''st'' three_entries new_kv_store"

lemma three_store_ok: "store_ok three_store" "kvalues three_store ''st'' = Some (VStream three_entries)"
  using store_ok_put_stream [OF store_ok_new three_entries_ok] by (simp_all add: three_store_def)

theorem xrange_is_filter_witness:
  "GetStream ''st'' (render_id 2 0) ''+'' three_store = Ret (drop 1 three_entries)"
proof -
  have r: "render_id 2 0 \<noteq> ''-''" by code_simp
  have "\<exists>e \<in> set three_entries. from_start (render_id 2 0) e" "\<exists>e \<in> set three_entries. upto_end ''+'' e"
    by (auto simp: three_entries_def from_start_def upto_end_def id_range_def less_eq_stream_id_def)
  from xrange_is_filter [OF three_store_ok(2,1) _ this]
  have "GetStream ''st'' (render_id 2 0) ''+'' three_store
      = Ret (filter (\<lambda>e. from_start (render_id 2 0) e \<and> upto_end ''+'' e) three_entries)"
    by (simp add: ordered_bounds_def)
  then show ?thesis using r
    by (simp add: three_entries_def from_start_def upto_end_def id_range_def less_eq_stream_id_def)
qed

text \<open>C22. XREAD's \<open>XReadStream\<close> returns exactly the entries newer than the given ID,
  in order, when there is one, and the whole stream when there is none.\<close>

theorem xread_newer_or_all:
  assumes "kvalues k sk = Some (VStream s)" "store_ok k"
  shows "XReadStream sk start k = Ret (
    if \<exists>e \<in> set s. id_of start < id_of (Seqkey e)
    then filter (\<lambda>e. id_of start < id_of (Seqkey e)) s else s)"
  using assms XReadStream_newer [OF assms(1)] XReadStream_none_newer [OF assms(1)]
  by (auto simp: store_ok_def)

theorem xread_newer_or_all_witness:
  "XReadStream ''st'' (render_id 2 0) three_store = Ret (drop 2 three_entries)
   \<and> XReadStream ''st'' (render_id 3 0) three_store = Ret three_entries"
  using xread_newer_or_all [OF three_store_ok(2,1), of "render_id 2 0"]
    xread_newer_or_all [OF three_store_ok(2,1), of "render_id 3 0"]
  by (simp add: three_entries_def id_range_def less_stream_id_def)

text \<open>XRANGE from beyond the last entry returns the whole stream, not nothing.\<close>

theorem xrange_past_end_returns_all:
  assumes "kvalues k sk = Some (VStream s)" "store_ok k" "s \<noteq> []"
    and "\<forall>e \<in> set s. id_of (Seqkey e) < id_of start" "start \<noteq> ''-''"
  shows "GetStream sk start ''+'' k = Ret s"
  using assms by (intro GetStream_past_end) (auto simp: store_ok_def from_start_def ordered_bounds_def)

theorem xrange_past_end_returns_all_witness:
  "GetStream ''st'' (render_id 9 0) ''+'' three_store = Ret three_entries"
proof -
  have "render_id 9 0 \<noteq> ''-''" by code_simp
  then show ?thesis using xrange_past_end_returns_all [OF three_store_ok(2,1), of "render_id 9 0"]
    by (simp add: three_entries_def id_range_def less_stream_id_def)
qed

end
