(* ===== verification/Host_Context.thy ===== *)
theory Host_Context
  imports Kv_Ranges Resp_Types
begin

text \<open>
  The state that all connections of a redis process share (\<open>HostContext\<close> of
  redis-go/app/cmd/main.go) and its transaction queues. \<open>Published\<close> is the list of the
  events sent so far on the channel \<open>PubSubManager.EventsChannel\<close>, oldest first.
  Connection ids are UUIDs, so 128-bit words; 0 is the zero UUID of a \<open>HandleContext\<close>
  made without one. A \<open>RespArray\<close> in a struct is its element list.
\<close>

type_synonym uuid = "128 word"

record queued_command =
  qcommand :: string
  qarr :: "resp list"

record host =
  Store :: kv_store
  ConfigStore :: kv_store
  LeaderAddr :: string
  Port :: int
  LeaderReplId :: string
  ProcessedBytes :: int
  TxQueue :: "uuid \<rightharpoonup> queued_command list"
  Published :: "string list"

text \<open>
  What a handler is called with: the connection's id and the request. The connection
  itself appears as the bytes a handler writes to it.
\<close>

record handle_context =
  ConnId :: uuid
  RespArr :: "resp list"

text \<open>
  The environment of one command: what it reads from the clock, and the order in which
  Go's runtime iterates over the keys of a map.
\<close>

record env =
  now :: uint64
  order :: "string set \<Rightarrow> string list"

definition fair_order :: "env \<Rightarrow> bool" where
  "fair_order e \<longleftrightarrow> (\<forall>S. finite S \<longrightarrow> set (order e S) = S \<and> distinct (order e S))"

section \<open>Byte count and transaction queues\<close>

definition AppendProcessedBytes :: "int \<Rightarrow> host \<Rightarrow> host" where
  "AppendProcessedBytes count h = h\<lparr>ProcessedBytes := wrap_int (ProcessedBytes h + count)\<rparr>"

definition IsInTransaction :: "host \<Rightarrow> uuid \<Rightarrow> bool" where
  "IsInTransaction h connid = (TxQueue h connid \<noteq> None)"

definition BeginTransaction :: "uuid \<Rightarrow> host \<Rightarrow> host" where
  "BeginTransaction connid h = h\<lparr>TxQueue := (TxQueue h)(connid \<mapsto> [])\<rparr>"

definition ConsumeTransactionQueue :: "uuid \<Rightarrow> host \<Rightarrow> queued_command list \<times> host" where
  "ConsumeTransactionQueue connid h =
     (case TxQueue h connid of None \<Rightarrow> [] | Some q \<Rightarrow> q,
      h\<lparr>TxQueue := (TxQueue h)(connid := None)\<rparr>)"

definition err_no_existing_transaction :: go_error where
  "err_no_existing_transaction = ErrorString ''no existing transaction''"

definition QueueCommand ::
  "uuid \<Rightarrow> string \<Rightarrow> resp list \<Rightarrow> host \<Rightarrow> go_error option \<times> host" where
  "QueueCommand connid c arr h =
     (case TxQueue h connid of
        None \<Rightarrow> (Some err_no_existing_transaction, h)
      | Some queue \<Rightarrow>
          (None, h\<lparr>TxQueue := (TxQueue h)(connid \<mapsto> queue @ [\<lparr>qcommand = c, qarr = arr\<rparr>])\<rparr>))"

section \<open>The contract of the queues\<close>

text \<open>
  A queue per connection: opened, appended to, and taken whole. The clients of the
  interface are the dispatcher and the handlers of MULTI, EXEC and DISCARD.
\<close>

locale command_queues =
  fixes queued :: "'h \<Rightarrow> 'c \<Rightarrow> 'q list option"
    and opened :: "'h \<Rightarrow> 'c \<Rightarrow> bool"
    and start :: "'c \<Rightarrow> 'h \<Rightarrow> 'h"
    and push :: "'c \<Rightarrow> 'q \<Rightarrow> 'h \<Rightarrow> go_error option \<times> 'h"
    and take_all :: "'c \<Rightarrow> 'h \<Rightarrow> 'q list \<times> 'h"
  assumes opened_law: "opened h c \<longleftrightarrow> queued h c \<noteq> None"
    and start_law: "queued (start c h) = (queued h)(c \<mapsto> [])"
    and push_open: "queued h c = Some q \<Longrightarrow>
      fst (push c x h) = None \<and> queued (snd (push c x h)) = (queued h)(c \<mapsto> q @ [x])"
    and push_closed: "queued h c = None \<Longrightarrow> fst (push c x h) \<noteq> None \<and> snd (push c x h) = h"
    and take_all_law: "queued h c = Some q \<Longrightarrow>
      fst (take_all c h) = q \<and> queued (snd (take_all c h)) = (queued h)(c := None)"
begin

fun push_all :: "'c \<Rightarrow> 'q list \<Rightarrow> 'h \<Rightarrow> 'h" where
  "push_all c [] h = h"
| "push_all c (x # xs) h = push_all c xs (snd (push c x h))"

lemma queued_push_all:
  "queued h c = Some q \<Longrightarrow> queued (push_all c xs h) = (queued h)(c \<mapsto> q @ xs)"
proof (induction xs arbitrary: h q)
  case (Cons x xs)
  then have "queued (snd (push c x h)) = (queued h)(c \<mapsto> q @ [x])" by (simp add: push_open)
  with Cons.IH [of "snd (push c x h)" "q @ [x]"] show ?case by (simp add: fun_eq_iff)
qed auto

text \<open>What was pushed since the start comes out, in order, and the queue is closed.\<close>

lemma take_all_pushed:
  "fst (take_all c (push_all c xs (start c h))) = xs"
  "\<not> opened (snd (take_all c (push_all c xs (start c h)))) c"
proof -
  have "queued (push_all c xs (start c h)) = (queued (start c h))(c \<mapsto> [] @ xs)"
    by (rule queued_push_all) (simp add: start_law)
  then have "queued (push_all c xs (start c h)) c = Some xs" by simp
  from take_all_law [OF this] show
    "fst (take_all c (push_all c xs (start c h))) = xs"
    "\<not> opened (snd (take_all c (push_all c xs (start c h)))) c"
    by (simp_all add: opened_law)
qed

text \<open>Other connections' queues are not touched.\<close>

lemma frame:
  assumes "c' \<noteq> c"
  shows "queued (start c h) c' = queued h c'" "queued (snd (push c x h)) c' = queued h c'"
    "opened h c \<Longrightarrow> queued (snd (take_all c h)) c' = queued h c'"
  using assms push_open [of h c _ x] push_closed [of h c x] take_all_law [of h c]
  by (cases "queued h c"; simp add: start_law opened_law)+

end

interpretation txq: command_queues TxQueue IsInTransaction BeginTransaction
  "\<lambda>c x. QueueCommand c (qcommand x) (qarr x)" ConsumeTransactionQueue
  by unfold_locales
     (auto simp: IsInTransaction_def BeginTransaction_def QueueCommand_def ConsumeTransactionQueue_def)

section \<open>Frame of the queue operations\<close>

lemma queue_frame [simp]:
  "Store (BeginTransaction c h) = Store h" "ConfigStore (BeginTransaction c h) = ConfigStore h"
  "Published (BeginTransaction c h) = Published h"
  "Store (snd (ConsumeTransactionQueue c h)) = Store h"
  "ConfigStore (snd (ConsumeTransactionQueue c h)) = ConfigStore h"
  "Published (snd (ConsumeTransactionQueue c h)) = Published h"
  "Store (snd (QueueCommand c s a h)) = Store h"
  "ConfigStore (snd (QueueCommand c s a h)) = ConfigStore h"
  "Published (snd (QueueCommand c s a h)) = Published h"
  by (auto simp: BeginTransaction_def ConsumeTransactionQueue_def QueueCommand_def split: option.splits)

end
