(* ===== verification/Rdb_Transfer.thy ===== *)
theory Rdb_Transfer
  imports Strconv Bufio Resp_Lexer
begin

text \<open>
  How a snapshot travels from leader to follower (redis-go/app/rdb/rdb.go:
  \<open>ReadRdb\<close>, \<open>SerializeB64RdbToString\<close>, \<open>DeserializeRdb\<close> and its \<open>readLine\<close>).
  The leader sends a fixed snapshot, kept in the source as base64; decoding is
  \<open>base64.StdEncoding.DecodeString\<close>.
\<close>

section \<open>Base64\<close>

definition b64_val :: "char \<Rightarrow> nat option" where
  "b64_val c =
     (let n = of_char c :: nat in
       if 65 \<le> n \<and> n \<le> 90 then Some (n - 65)
       else if 97 \<le> n \<and> n \<le> 122 then Some (n - 71)
       else if 48 \<le> n \<and> n \<le> 57 then Some (n + 4)
       else if n = 43 then Some 62
       else if n = 47 then Some 63
       else None)"

text \<open>One group of four: three, two or one bytes, by its padding.\<close>

definition b64_group :: "nat \<Rightarrow> nat \<Rightarrow> nat \<Rightarrow> nat \<Rightarrow> string" where
  "b64_group a b c d =
     [char_of (a * 4 + b div 16), char_of ((b mod 16) * 16 + c div 4), char_of ((c mod 4) * 64 + d)]"

fun b64_quads :: "string \<Rightarrow> string option" where
  "b64_quads [] = Some []"
| "b64_quads (a # b # c # d # rest) =
     (case (b64_val a, b64_val b) of
        (Some x, Some y) \<Rightarrow>
          (if c = CHR ''='' \<and> d = CHR ''='' \<and> rest = [] then Some (take 1 (b64_group x y 0 0))
           else (case b64_val c of
               None \<Rightarrow> None
             | Some z \<Rightarrow>
                 (if d = CHR ''='' \<and> rest = [] then Some (take 2 (b64_group x y z 0))
                  else (case b64_val d of
                      None \<Rightarrow> None
                    | Some w \<Rightarrow> (case b64_quads rest of
                          None \<Rightarrow> None
                        | Some out \<Rightarrow> Some (b64_group x y z w @ out))))))
      | _ \<Rightarrow> None)"
| "b64_quads _ = None"

definition b64_decode :: "string \<Rightarrow> string option" where
  "b64_decode s = b64_quads (filter (\<lambda>c. c \<noteq> CR \<and> c \<noteq> LF) s)"

section \<open>The leader's side\<close>

definition ReadRdb :: string where
  "ReadRdb = ''UkVESVMwMDEx+glyZWRpcy12ZXIFNy4yLjD6CnJlZGlzLWJpdHPAQPoFY3RpbWXCbQi8ZfoIdXNlZC1tZW3CsMQQAPoIYW9mLWJhc2XAAP/wbjv+wP9aog==''"

definition SerializeB64RdbToString :: "string \<Rightarrow> string go" where
  "SerializeB64RdbToString contents =
     (case b64_decode contents of
        None \<Rightarrow> Err (ErrorString ''illegal base64 data'')
      | Some data \<Rightarrow> Ret (''$'' @ itoa (int (length data)) @ CRLF @ data))"

section \<open>The follower's side\<close>

text \<open>
  \<open>readLine\<close> of package rdb drops the last two bytes of the line and panics when there
  are fewer. \<open>DeserializeRdb\<close> reads a byte and the length line, and then with one
  \<open>Read\<close> whatever of the snapshot has arrived; it does not look at how much that was
  and returns the whole slice, zero bytes after what was read.
\<close>

definition rdb_read_line :: "reader \<Rightarrow> string go \<times> reader" where
  "rdb_read_line r =
     (case read_string LF r of ((line, _), r') \<Rightarrow>
       (if length line < 2 then Panic else Ret (take (length line - 2) line), r'))"

definition DeserializeRdb :: "reader \<Rightarrow> string go \<times> reader" where
  "DeserializeRdb r =
     (case read_some 1 r of (_, r0) \<Rightarrow>
       (case rdb_read_line r0 of
          (Panic, r1) \<Rightarrow> (Panic, r1)
        | (Err e, r1) \<Rightarrow> (Err e, r1)
        | (Ret line, r1) \<Rightarrow>
            (case atoi line of
               (count, Some e) \<Rightarrow> (Err (NumError e), r1)
             | (count, None) \<Rightarrow>
                 (if \<not> make_ok 1 count then (Panic, r1)
                  else (case read_some (nat count) r1 of
                      (Err e, r2) \<Rightarrow> (Err e, r2)
                    | (Panic, r2) \<Rightarrow> (Panic, r2)
                    | (Ret data, r2) \<Rightarrow>
                        (Ret (data @ replicate (nat count - length data) (CHR 0x00)), r2))))))"

section \<open>The fixed snapshot\<close>

definition empty_rdb :: string where
  "empty_rdb = (case b64_decode ReadRdb of None \<Rightarrow> [] | Some d \<Rightarrow> d)"

lemma ReadRdb_decodes: "b64_decode ReadRdb = Some empty_rdb"
proof -
  have "b64_decode ReadRdb \<noteq> None" unfolding ReadRdb_def by code_simp
  then show ?thesis by (auto simp: empty_rdb_def)
qed

lemma length_empty_rdb: "length empty_rdb = 88"
  unfolding empty_rdb_def ReadRdb_def by code_simp

lemma empty_rdb_header: "take 9 empty_rdb = ''REDIS0011''"
  unfolding empty_rdb_def ReadRdb_def by code_simp

lemma SerializeB64RdbToString_ReadRdb:
  "SerializeB64RdbToString ReadRdb = Ret (''$88'' @ CRLF @ empty_rdb)"
proof -
  have "itoa 88 = ''88''" by code_simp
  then show ?thesis by (simp add: SerializeB64RdbToString_def ReadRdb_decodes length_empty_rdb)
qed

section \<open>Receiving a snapshot that has arrived whole\<close>

lemma DeserializeRdb_buffered:
  assumes "rbuf r = ''$'' @ itoa (int (length d)) @ CRLF @ d @ t" "d \<noteq> []" "length d \<le> 281474976710656"
  shows "DeserializeRdb r = (Ret d, r\<lparr>rbuf := t\<rparr>)"
proof -
  let ?n = "itoa (int (length d))"
  have len: "in_int64 (int (length d))" using assms(3) by (simp add: in_int64_def)
  have nolf: "LF \<notin> set (?n @ [CR])" by simp
  have one: "read_some 1 r = (Ret ''$'', r\<lparr>rbuf := ?n @ CRLF @ d @ t\<rparr>)"
    using assms(1) by (simp add: read_some_def)
  have line: "rdb_read_line (r\<lparr>rbuf := ?n @ CRLF @ d @ t\<rparr>) = (Ret ?n, r\<lparr>rbuf := d @ t\<rparr>)"
    using takeWhile_neq_append [OF nolf] dropWhile_neq_append [OF nolf]
    by (simp add: rdb_read_line_def read_string_def read_string_acc.simps [of LF])
  have data: "read_some (length d) (r\<lparr>rbuf := d @ t\<rparr>) = (Ret d, r\<lparr>rbuf := t\<rparr>)"
    using assms(2) by (simp add: read_some_def)
  show ?thesis using one line data len assms(3) by (simp add: DeserializeRdb_def make_ok_def)
qed

end
