(* ===== verification/Cmd_Handlers.thy ===== *)
theory Cmd_Handlers
  imports Host_Context Rdb_Transfer
begin

text \<open>
  The command handlers (redis-go/app/cmd/*.go, but for EXEC and the dispatcher). A
  handler ends with a reply, an error that closes the connection, the end of the process
  (\<open>Crash\<close>: a panic or \<open>os.Exit\<close>), or, for PSYNC, by turning the connection into a
  replication stream after the bytes it wrote; \<open>TooDeep\<close> is for the dispatcher's depth
  bound and never a handler's result.

  Handlers index the request without a check and assert the type of what they find, so
  a request that is too short, or not of bulk strings, is a crash: \<open>bulk_at\<close>.
\<close>

datatype outcome =
    Reply string
  | Fails go_error
  | Crash
  | Streaming string
  | TooDeep

definition bulk_at :: "resp list \<Rightarrow> nat \<Rightarrow> string go" where
  "bulk_at es i =
     (if i < length es then (case es ! i of RespBulkString s \<Rightarrow> Ret s | _ \<Rightarrow> Panic) else Panic)"

definition with_ret :: "'a go \<Rightarrow> host \<Rightarrow> ('a \<Rightarrow> outcome \<times> host) \<Rightarrow> outcome \<times> host" where
  "with_ret m h f = (case m of Ret a \<Rightarrow> f a | Err e \<Rightarrow> (Fails e, h) | Panic \<Rightarrow> (Crash, h))"

abbreviation reply :: "resp \<Rightarrow> outcome" where
  "reply v \<equiv> Reply (as_resp_string v)"

fun go_mapM :: "('a \<Rightarrow> 'b go) \<Rightarrow> 'a list \<Rightarrow> 'b list go" where
  "go_mapM f [] = Ret []"
| "go_mapM f (x # xs) = go_bind (f x) (\<lambda>y. go_bind (go_mapM f xs) (\<lambda>ys. Ret (y # ys)))"

section \<open>Commands without data\<close>

definition HandlePing :: "host \<Rightarrow> outcome \<times> host" where
  "HandlePing h = (Reply (''+PONG'' @ CRLF), h)"

definition HandleWait :: "host \<Rightarrow> outcome \<times> host" where
  "HandleWait h = (Reply ('':0'' @ CRLF), h)"

definition HandleEcho :: "resp list \<Rightarrow> host \<Rightarrow> outcome \<times> host" where
  "HandleEcho args h =
     (if length args \<noteq> 2
      then (Fails (ErrorString (''expected echo to pass exactly 2 args: 'echo' and 'value' but got ''
              @ itoa (int (length args)))), h)
      else (reply (args ! 1), h))"

definition HandleInfo :: "host \<Rightarrow> outcome \<times> host" where
  "HandleInfo h =
     (let role = (if LeaderAddr h \<noteq> [] then ''slave'' else ''master'');
          info = [''role:'' @ role]
            @ (if LeaderReplId h \<noteq> []
               then [''master_replid:'' @ LeaderReplId h, ''master_repl_offset:'' @ itoa 0] else [])
      in (reply (RespBulkString (join_with CRLF info @ CRLF)), h))"

definition HandleReplconf :: "resp list \<Rightarrow> host \<Rightarrow> outcome \<times> host" where
  "HandleReplconf args h =
     with_ret (bulk_at args 1) h (\<lambda>command.
       let c = to_lower command in
       if c = ''listening-port'' then (reply ok_response, h)
       else if c = ''capa'' then (reply ok_response, h)
       else if c = ''getack'' then (reply (ack_response (ProcessedBytes h)), h)
       else (Fails (ErrorString ''unexpected replconf command''), h))"

section \<open>Configuration\<close>

definition HandleConfig :: "env \<Rightarrow> resp list \<Rightarrow> host \<Rightarrow> outcome \<times> host" where
  "HandleConfig e args h =
     with_ret (bulk_at args 1) h (\<lambda>op.
       if to_lower op = ''get'' then
         with_ret (bulk_at args 2) h (\<lambda>key.
           (case kv_get (now e) key (ConfigStore h) of ((val, exists), cs) \<Rightarrow>
             (let h1 = h\<lparr>ConfigStore := cs\<rparr> in
               case val of
                 Some (VString svalue) \<Rightarrow>
                   (if exists
                    then (reply (RespArray [RespBulkString key, RespBulkString svalue]), h1)
                    else (Fails (ErrorString (''error key not found: '' @ key)), h1))
               | _ \<Rightarrow> (Fails (ErrorString ''expected config to be a string''), h1))))
       else (Fails (ErrorString (''error unknown operation: '' @ op)), h))"

section \<open>Plain keys\<close>

definition HandleGet :: "env \<Rightarrow> resp list \<Rightarrow> host \<Rightarrow> outcome \<times> host" where
  "HandleGet e args h =
     with_ret (bulk_at args 1) h (\<lambda>key.
       (case kv_get (now e) key (Store h) of ((val, exists), s) \<Rightarrow>
         (let h1 = h\<lparr>Store := s\<rparr> in
           if \<not> exists then (reply null_bulk_string, h1)
           else (case val of
                   Some (VString v) \<Rightarrow> (reply (RespBulkString v), h1)
                 | Some (VInt v) \<Rightarrow> (reply (RespInteger v), h1)
                 | _ \<Rightarrow> (Fails (ErrorString ''unexpected value type''), h1)))))"

definition HandleType :: "env \<Rightarrow> resp list \<Rightarrow> host \<Rightarrow> outcome \<times> host" where
  "HandleType e args h =
     with_ret (bulk_at args 1) h (\<lambda>key.
       (case kv_get (now e) key (Store h) of ((val, exists), s) \<Rightarrow>
         (let h1 = h\<lparr>Store := s\<rparr> in
           if \<not> exists then (reply (RespSimpleString ''none''), h1)
           else (case val of
                   Some (VString _) \<Rightarrow> (reply (RespSimpleString ''string''), h1)
                 | Some (VStream _) \<Rightarrow> (reply (RespSimpleString ''stream''), h1)
                 | _ \<Rightarrow> (Fails (ErrorString ''unexpected value type''), h1)))))"

definition HandleKeys :: "env \<Rightarrow> host \<Rightarrow> outcome \<times> host" where
  "HandleKeys e h = (reply (RespArray (map RespBulkString (kv_list (order e) (Store h)))), h)"

text \<open>The options of SET: \<open>px\<close> in lower case as the fourth word, its value converted to
  \<open>uint64\<close>; anything else is ignored.\<close>

definition set_expiry :: "resp list \<Rightarrow> uint64 go" where
  "set_expiry args =
     (if length args > 3 then
        go_bind (bulk_at args 3) (\<lambda>arg1.
          if arg1 = ''px'' then
            go_bind (bulk_at args 4) (\<lambda>arg1Val.
              (case atoi arg1Val of
                 (_, Some e) \<Rightarrow> Err (NumError e)
               | (expiryMs, None) \<Rightarrow> Ret (word_of_int expiryMs)))
          else Ret 0)
      else Ret 0)"

definition publish :: "string \<Rightarrow> host \<Rightarrow> host" where
  "publish event h = h\<lparr>Published := Published h @ [event]\<rparr>"

definition HandleSet :: "env \<Rightarrow> resp list \<Rightarrow> host \<Rightarrow> outcome \<times> host" where
  "HandleSet e args h =
     with_ret (bulk_at args 1) h (\<lambda>key.
     with_ret (bulk_at args 2) h (\<lambda>val.
     with_ret (set_expiry args) h (\<lambda>expiry.
       (reply (RespSimpleString ''OK''),
        publish (as_resp_string (RespArray args))
          (h\<lparr>Store := kv_set (now e) key (VString val) expiry (Store h)\<rparr>)))))"

definition HandleIncr :: "env \<Rightarrow> resp list \<Rightarrow> host \<Rightarrow> outcome \<times> host" where
  "HandleIncr e args h =
     with_ret (bulk_at args 1) h (\<lambda>key.
       (case kv_get (now e) key (Store h) of ((val, exists), s) \<Rightarrow>
         (let h1 = h\<lparr>Store := s\<rparr>;
              finish = (\<lambda>newval.
                (reply (RespInteger newval),
                 publish (as_resp_string (RespArray args))
                   (h1\<lparr>Store := kv_set (now e) key (VString (itoa newval)) 0 (Store h1)\<rparr>)))
          in
           if \<not> exists then finish 1
           else (case val of
                   Some (VString v) \<Rightarrow>
                     (case atoi v of
                        (_, Some _) \<Rightarrow>
                          (reply (RespError ''ERR value is not an integer or out of range''), h1)
                      | (intval, None) \<Rightarrow> finish (wrap_int (intval + 1)))
                 | _ \<Rightarrow> (Fails (ErrorString ''unexpected value type in incr''), h1)))))"

section \<open>Streams\<close>

text \<open>
  \<open>NewRespArrFromMap\<close>: the keys and values of a map, in iteration order. Values are
  asserted to be strings.
\<close>

definition resp_arr_from_map :: "(string set \<Rightarrow> string list) \<Rightarrow> (string \<rightharpoonup> go_value) \<Rightarrow> resp go" where
  "resp_arr_from_map ord items =
     go_bind (go_mapM (\<lambda>k. case items k of
         Some (VString v) \<Rightarrow> Ret [RespBulkString k, RespBulkString v]
       | _ \<Rightarrow> Panic) (ord (dom items)))
       (\<lambda>inner. Ret (RespArray (concat inner)))"

definition entry_resp :: "(string set \<Rightarrow> string list) \<Rightarrow> stream_entry \<Rightarrow> resp go" where
  "entry_resp ord entry =
     go_bind (resp_arr_from_map ord (Values entry)) (\<lambda>vs.
       Ret (RespArray [RespBulkString (Seqkey entry), vs]))"

text \<open>\<open>err.Error ()\<close> of the errors \<open>SetStream\<close> returns, which are texts.\<close>

fun err_text :: "go_error \<Rightarrow> string" where
  "err_text (ErrorString s) = s"
| "err_text (Wrapped s e) = s @ err_text e"
| "err_text (IOError s) = s"
| "err_text EOF = ''EOF''"
| "err_text ErrUnexpectedEOF = ''unexpected EOF''"
| "err_text (NumError ErrSyntax) = ''invalid syntax''"
| "err_text (NumError ErrRange) = ''value out of range''"

definition HandleXAdd :: "env \<Rightarrow> resp list \<Rightarrow> host \<Rightarrow> outcome \<times> host" where
  "HandleXAdd e args h =
     with_ret (bulk_at args 1) h (\<lambda>streamkey.
     with_ret (bulk_at args 2) h (\<lambda>seqkey.
     with_ret (bulk_at args 3) h (\<lambda>key.
     with_ret (bulk_at args 4) h (\<lambda>value.
       (case SetStream (now e) streamkey seqkey key (VString value) (Store h) of (res, s) \<Rightarrow>
         (let h1 = h\<lparr>Store := s\<rparr> in
           case res of
             Err err \<Rightarrow> (reply (RespError (err_text err)), h1)
           | Panic \<Rightarrow> (Crash, h1)
           | Ret skey \<Rightarrow> (reply (RespBulkString skey), h1)))))))"

definition HandleXRange :: "env \<Rightarrow> resp list \<Rightarrow> host \<Rightarrow> outcome \<times> host" where
  "HandleXRange e args h =
     with_ret (bulk_at args 1) h (\<lambda>streamkey.
     with_ret (bulk_at args 2) h (\<lambda>start.
     with_ret (bulk_at args 3) h (\<lambda>end.
     with_ret (GetStream streamkey start end (Store h)) h (\<lambda>r.
     with_ret (go_mapM (entry_resp (order e)) r) h (\<lambda>result.
       (reply (RespArray result), h))))))"

text \<open>The loop of XREAD over its keys; \<open>ranges\<close> has at least as many elements.\<close>

fun xread_loop ::
  "(string set \<Rightarrow> string list) \<Rightarrow> kv_store \<Rightarrow> string list \<Rightarrow> string list \<Rightarrow> resp list go" where
  "xread_loop ord s [] ranges = Ret []"
| "xread_loop ord s (key # keys) [] = Panic"
| "xread_loop ord s (key # keys) (rng # ranges) =
     go_bind (XReadStream key rng s) (\<lambda>r.
     go_bind (go_mapM (entry_resp ord) r) (\<lambda>result.
     go_bind (xread_loop ord s keys ranges) (\<lambda>arrs.
       Ret (RespArray [RespBulkString key, RespArray result] # arrs))))"

definition HandleXRead :: "env \<Rightarrow> resp list \<Rightarrow> host \<Rightarrow> outcome \<times> host" where
  "HandleXRead e args h =
     (let count = (length args - 2) div 2 in
     with_ret (go_mapM (bulk_at args) [2..<2 + count]) h (\<lambda>keys.
     with_ret (go_mapM (bulk_at args) [count + 2..<length args]) h (\<lambda>ranges.
     with_ret (xread_loop (order e) (Store h) keys ranges) h (\<lambda>arrs.
       (reply (RespArray arrs), h)))))"

section \<open>Transactions and replication\<close>

definition HandleMulti :: "handle_context \<Rightarrow> host \<Rightarrow> outcome \<times> host" where
  "HandleMulti ctx h = (reply (RespSimpleString ''OK''), BeginTransaction (ConnId ctx) h)"

definition HandleDiscard :: "handle_context \<Rightarrow> host \<Rightarrow> outcome \<times> host" where
  "HandleDiscard ctx h =
     (if \<not> IsInTransaction h (ConnId ctx) then (reply (RespError ''ERR DISCARD without MULTI''), h)
      else (reply ok_response, snd (ConsumeTransactionQueue (ConnId ctx) h)))"

text \<open>What PSYNC writes before the replication loop takes the connection over.\<close>

definition HandlePSync :: "host \<Rightarrow> outcome \<times> host" where
  "HandlePSync h =
     (case SerializeB64RdbToString ReadRdb of
        Ret rdbstr \<Rightarrow> (Streaming (as_resp_string (psync_response (LeaderReplId h) 0) @ rdbstr), h)
      | _ \<Rightarrow> (Crash, h))"

end
