(* ===== verification/Commands.thy ===== *)
theory Commands
  imports Cmd_Handlers
begin

text \<open>
  The dispatcher \<open>HandleCommand\<close> (redis-go/app/cmd/main.go) and EXEC
  (redis-go/app/cmd/exec.go), which call one another: EXEC runs every queued command
  through the dispatcher again. \<open>run_command\<close> is the dispatcher with EXEC's handler as
  an argument, \<open>handle_depth n\<close> ties the knot \<open>n\<close> calls deep. Queues never hold an
  EXEC, so depth 1 is enough (\<open>handle_depth_enough\<close>), and \<open>HandleCommand\<close> is depth 1.

  A schedule gives each command of a request its environment: number 0 to the request
  itself, number \<open>i\<close> to the \<open>i\<close>-th command an EXEC runs, because time passes between
  them.
\<close>

type_synonym schedule = "nat \<Rightarrow> env"

type_synonym handler = "schedule \<Rightarrow> handle_context \<Rightarrow> host \<Rightarrow> outcome \<times> host"

section \<open>The code\<close>

text \<open>
  The loop of EXEC. The context it makes for a queued command has no connection id, so
  it carries the zero UUID.
\<close>

fun exec_loop ::
  "(schedule \<Rightarrow> handle_context \<Rightarrow> string \<Rightarrow> host \<Rightarrow> outcome \<times> host) \<Rightarrow> schedule \<Rightarrow> nat
   \<Rightarrow> queued_command list \<Rightarrow> string list \<Rightarrow> host \<Rightarrow> outcome \<times> host" where
  "exec_loop inner sch i [] result h = (Reply (resp_arr_string_from_strings result), h)"
| "exec_loop inner sch i (c # queue) result h =
     (case inner (\<lambda>j. sch (i + j)) \<lparr>ConnId = 0, RespArr = qarr c\<rparr> (qcommand c) h of
        (Reply res, h1) \<Rightarrow> exec_loop inner sch (i + 1) queue (result @ [res]) h1
      | (Fails err, h1) \<Rightarrow> (Fails (Wrapped ''got error whilst executing transaction: '' err), h1)
      | (Crash, h1) \<Rightarrow> (Crash, h1)
      | (Streaming w, h1) \<Rightarrow> (Streaming w, h1)
      | (TooDeep, h1) \<Rightarrow> (TooDeep, h1))"

definition HandleExec ::
  "(schedule \<Rightarrow> handle_context \<Rightarrow> string \<Rightarrow> host \<Rightarrow> outcome \<times> host) \<Rightarrow> handler" where
  "HandleExec inner sch ctx h =
     (if \<not> IsInTransaction h (ConnId ctx) then (reply (RespError ''ERR EXEC without MULTI''), h)
      else (case ConsumeTransactionQueue (ConnId ctx) h of (queue, h1) \<Rightarrow>
        exec_loop inner sch 1 queue [] h1))"

text \<open>The switch over the lowered command name.\<close>

definition dispatch :: "handler \<Rightarrow> schedule \<Rightarrow> handle_context \<Rightarrow> string \<Rightarrow> host \<Rightarrow> outcome \<times> host" where
  "dispatch exec sch ctx content h =
     (let e = sch 0; args = RespArr ctx in
      if content = ''config'' then HandleConfig e args h
      else if content = ''discard'' then HandleDiscard ctx h
      else if content = ''echo'' then HandleEcho args h
      else if content = ''exec'' then exec sch ctx h
      else if content = ''get'' then HandleGet e args h
      else if content = ''incr'' then HandleIncr e args h
      else if content = ''info'' then HandleInfo h
      else if content = ''keys'' then HandleKeys e h
      else if content = ''multi'' then HandleMulti ctx h
      else if content = ''ping'' then HandlePing h
      else if content = ''psync'' then HandlePSync h
      else if content = ''replconf'' then HandleReplconf args h
      else if content = ''set'' then HandleSet e args h
      else if content = ''type'' then HandleType e args h
      else if content = ''wait'' then HandleWait h
      else if content = ''xadd'' then HandleXAdd e args h
      else if content = ''xrange'' then HandleXRange e args h
      else if content = ''xread'' then HandleXRead e args h
      else (Crash, h))"

definition run_command :: "handler \<Rightarrow> schedule \<Rightarrow> handle_context \<Rightarrow> string \<Rightarrow> host \<Rightarrow> outcome \<times> host" where
  "run_command exec sch ctx content0 h =
     (let content = to_lower content0 in
      if IsInTransaction h (ConnId ctx) \<and> content \<noteq> ''exec'' \<and> content \<noteq> ''discard'' then
        (reply (RespSimpleString ''QUEUED''), snd (QueueCommand (ConnId ctx) content (RespArr ctx) h))
      else dispatch exec sch ctx content h)"

primrec handle_depth :: "nat \<Rightarrow> schedule \<Rightarrow> handle_context \<Rightarrow> string \<Rightarrow> host \<Rightarrow> outcome \<times> host" where
  "handle_depth 0 = run_command (\<lambda>sch ctx h. (TooDeep, h))"
| "handle_depth (Suc n) = run_command (HandleExec (handle_depth n))"

definition HandleCommand :: "schedule \<Rightarrow> handle_context \<Rightarrow> string \<Rightarrow> host \<Rightarrow> outcome \<times> host" where
  "HandleCommand = handle_depth 1"

section \<open>Invariant of the shared state\<close>

definition command_names :: "string list" where
  "command_names = [''config'', ''discard'', ''echo'', ''exec'', ''get'', ''incr'', ''info'',
     ''keys'', ''multi'', ''ping'', ''psync'', ''replconf'', ''set'', ''type'', ''wait'',
     ''xadd'', ''xrange'', ''xread'']"

definition queueable :: "queued_command \<Rightarrow> bool" where
  "queueable c \<longleftrightarrow> qcommand c \<noteq> ''exec'' \<and> qcommand c \<noteq> ''discard'' \<and> to_lower (qcommand c) = qcommand c"

definition queues_ok :: "host \<Rightarrow> bool" where
  "queues_ok h \<longleftrightarrow> (\<forall>c q. TxQueue h c = Some q \<longrightarrow> list_all queueable q)"

definition host_ok :: "host \<Rightarrow> bool" where
  "host_ok h \<longleftrightarrow>
     store_ok (Store h) \<and> typed_store (Store h) \<and> store_ok (ConfigStore h) \<and> queues_ok h"

text \<open>Invariants every handler keeps, by handler; queues change in four operations only.\<close>

lemma with_ret_cases:
  "P (with_ret m h f) \<longleftrightarrow>
     (\<forall>a. m = Ret a \<longrightarrow> P (f a)) \<and> (\<forall>e. m = Err e \<longrightarrow> P (Fails e, h)) \<and> (m = Panic \<longrightarrow> P (Crash, h))"
  by (cases m) (auto simp: with_ret_def)

lemma queues_ok_Store [simp]: "queues_ok (h\<lparr>Store := s\<rparr>) = queues_ok h"
  "queues_ok (h\<lparr>ConfigStore := s\<rparr>) = queues_ok h" "queues_ok (publish e h) = queues_ok h"
  by (simp_all add: queues_ok_def publish_def)

lemma publish_frame [simp]:
  "Store (publish e h) = Store h" "ConfigStore (publish e h) = ConfigStore h"
  "TxQueue (publish e h) = TxQueue h" "Published (publish e h) = Published h @ [e]"
  by (simp_all add: publish_def)

lemma host_ok_kv_get [simp]:
  assumes "kv_get ms key (Store h) = (r, s)" shows "host_ok (h\<lparr>Store := s\<rparr>) = host_ok h"
  using store_ok_get [of ms key "Store h"] typed_store_get [of ms key "Store h"] assms
  by (simp add: host_ok_def)

lemma host_ok_conf_get [simp]:
  assumes "kv_get ms key (ConfigStore h) = (r, s)" shows "host_ok (h\<lparr>ConfigStore := s\<rparr>) = host_ok h"
  using store_ok_get [of ms key "ConfigStore h"] assms by (simp add: host_ok_def)

lemma host_ok_publish [simp]: "host_ok (publish e h) = host_ok h"
  by (simp add: host_ok_def)

lemma host_ok_set:
  "host_ok h \<Longrightarrow> host_ok (h\<lparr>Store := kv_set ms key (VString v) x (Store h)\<rparr>)"
  by (auto simp: host_ok_def intro: store_ok_set typed_store_set)

lemma HandleConfig_ok: "host_ok h \<Longrightarrow> host_ok (snd (HandleConfig e args h))"
  by (auto simp: HandleConfig_def with_ret_cases [where P = "\<lambda>x. host_ok (snd x)"] Let_def
      split: prod.splits option.splits go_value.splits)

lemma HandleGet_ok: "host_ok h \<Longrightarrow> host_ok (snd (HandleGet e args h))"
  by (auto simp: HandleGet_def with_ret_cases [where P = "\<lambda>x. host_ok (snd x)"] Let_def
      split: prod.splits option.splits go_value.splits)

lemma HandleType_ok: "host_ok h \<Longrightarrow> host_ok (snd (HandleType e args h))"
  by (auto simp: HandleType_def with_ret_cases [where P = "\<lambda>x. host_ok (snd x)"] Let_def
      split: prod.splits option.splits go_value.splits)

lemma HandleSet_ok: "host_ok h \<Longrightarrow> host_ok (snd (HandleSet e args h))"
  by (auto simp: HandleSet_def with_ret_cases [where P = "\<lambda>x. host_ok (snd x)"] intro: host_ok_set)

lemma HandleIncr_ok: "host_ok h \<Longrightarrow> host_ok (snd (HandleIncr e args h))"
  by (auto simp: HandleIncr_def with_ret_cases [where P = "\<lambda>x. host_ok (snd x)"] Let_def
      simp del: simp_thms(1) intro!: host_ok_set [of "h\<lparr>Store := _\<rparr>", simplified]
      split: prod.splits option.splits go_value.splits)

lemma HandleXAdd_ok: "host_ok h \<Longrightarrow> host_ok (snd (HandleXAdd e args h))"
proof -
  assume ok: "host_ok h"
  then have "host_ok (h\<lparr>Store := s\<rparr>)" if "SetStream ms a b c (VString v) (Store h) = (r, s)" for ms a b c v r s
    using store_ok_SetStream [of "Store h" ms a b c "VString v"]
      typed_store_SetStream [of "Store h" ms a b c v] that by (simp add: host_ok_def)
  with ok show ?thesis
    by (auto simp: HandleXAdd_def with_ret_cases [where P = "\<lambda>x. host_ok (snd x)"] Let_def
        split: prod.splits go.splits)
qed

lemma queues_ok_Begin: "queues_ok h \<Longrightarrow> queues_ok (BeginTransaction c h)"
  by (simp add: queues_ok_def BeginTransaction_def)

lemma queues_ok_Consume:
  "queues_ok h \<Longrightarrow> queues_ok (snd (ConsumeTransactionQueue c h)) \<and> list_all queueable (fst (ConsumeTransactionQueue c h))"
  by (auto simp: queues_ok_def ConsumeTransactionQueue_def split: option.splits)

lemma queues_ok_Queue:
  "queues_ok h \<Longrightarrow> queueable \<lparr>qcommand = s, qarr = a\<rparr> \<Longrightarrow> queues_ok (snd (QueueCommand c s a h))"
  by (auto simp: queues_ok_def QueueCommand_def split: option.splits)

lemma host_ok_Begin: "host_ok h \<Longrightarrow> host_ok (BeginTransaction c h)"
  by (simp add: host_ok_def queues_ok_Begin)

lemma host_ok_Consume: "host_ok h \<Longrightarrow> host_ok (snd (ConsumeTransactionQueue c h))"
  by (simp add: host_ok_def queues_ok_Consume)

lemma host_ok_Queue:
  "host_ok h \<Longrightarrow> queueable \<lparr>qcommand = s, qarr = a\<rparr> \<Longrightarrow> host_ok (snd (QueueCommand c s a h))"
  by (simp add: host_ok_def queues_ok_Queue)

text \<open>The handlers that change nothing.\<close>

lemma readonly_handlers:
  "snd (HandlePing h) = h" "snd (HandleWait h) = h" "snd (HandleEcho args h) = h"
  "snd (HandleInfo h) = h" "snd (HandleReplconf args h) = h" "snd (HandleKeys e h) = h"
  "snd (HandlePSync h) = h" "snd (HandleXRange e args h) = h" "snd (HandleXRead e args h) = h"
  by (auto simp: HandlePing_def HandleWait_def HandleEcho_def HandleInfo_def HandleReplconf_def
      HandleKeys_def HandlePSync_def HandleXRange_def HandleXRead_def Let_def
      with_ret_cases [where P = "\<lambda>x. snd x = h"] split: go.splits)

lemmas handlers_ok =
  HandleConfig_ok HandleGet_ok HandleType_ok HandleSet_ok HandleIncr_ok HandleXAdd_ok host_ok_Begin
  host_ok_Consume

lemma dispatch_ok:
  assumes "host_ok h" "\<And>sch ctx h. host_ok h \<Longrightarrow> host_ok (snd (exec sch ctx h))"
  shows "host_ok (snd (dispatch exec sch ctx content h))"
  using assms handlers_ok
  by (simp add: dispatch_def Let_def readonly_handlers HandleMulti_def HandleDiscard_def)

lemma run_command_ok:
  assumes "host_ok h" "\<And>sch ctx h. host_ok h \<Longrightarrow> host_ok (snd (exec sch ctx h))"
  shows "host_ok (snd (run_command exec sch ctx content h))"
  using assms by (simp add: run_command_def Let_def host_ok_Queue queueable_def dispatch_ok)

lemma exec_loop_ok:
  assumes "\<And>sch ctx s h. host_ok h \<Longrightarrow> host_ok (snd (inner sch ctx s h))"
  shows "host_ok h \<Longrightarrow> host_ok (snd (exec_loop inner sch i queue result h))"
proof (induction queue arbitrary: i result h)
  case (Cons c queue)
  from assms [OF Cons.prems, of "\<lambda>j. sch (i + j)" "\<lparr>ConnId = 0, RespArr = qarr c\<rparr>" "qcommand c"]
  show ?case using Cons.IH by (auto split: prod.splits outcome.splits)
qed simp

lemma HandleExec_ok:
  assumes "\<And>sch ctx s h. host_ok h \<Longrightarrow> host_ok (snd (inner sch ctx s h))" "host_ok h"
  shows "host_ok (snd (HandleExec inner sch ctx h))"
  using host_ok_Consume [OF assms(2), of "ConnId ctx"] assms exec_loop_ok [of inner]
  by (auto simp: HandleExec_def split: prod.splits)

lemma handle_depth_ok: "host_ok h \<Longrightarrow> host_ok (snd (handle_depth n sch ctx s h))"
proof (induction n arbitrary: sch ctx s h)
  case 0
  then show ?case by (simp add: handle_depth.simps run_command_ok)
next
  case (Suc n)
  then show ?case by (simp add: run_command_ok HandleExec_ok)
qed

section \<open>Depth\<close>

declare handle_depth.simps [simp del]

text \<open>Only the command EXEC looks at the argument of \<open>run_command\<close>.\<close>

lemma run_command_exec_irrelevant:
  "to_lower s \<noteq> ''exec'' \<Longrightarrow> run_command ex1 sch ctx s h = run_command ex2 sch ctx s h"
  by (simp add: run_command_def dispatch_def Let_def)

lemma exec_loop_inner_cong:
  assumes "\<And>c sch ctx h. c \<in> set queue \<Longrightarrow> in1 sch ctx (qcommand c) h = in2 sch ctx (qcommand c) h"
  shows "exec_loop in1 sch i queue result h = exec_loop in2 sch i queue result h"
  using assms by (induction queue arbitrary: i result h) (auto split: prod.splits outcome.splits)

lemma handle_depth_not_exec:
  assumes "queueable c" shows "handle_depth n sch ctx (qcommand c) h = handle_depth 0 sch ctx (qcommand c) h"
proof -
  have "to_lower (qcommand c) \<noteq> ''exec''" using assms by (simp add: queueable_def)
  then show ?thesis by (cases n) (auto simp: handle_depth.simps intro: run_command_exec_irrelevant)
qed

lemma HandleExec_depth:
  assumes "queues_ok h"
  shows "HandleExec (handle_depth n) sch ctx h = HandleExec (handle_depth 0) sch ctx h"
proof -
  obtain queue h1 where q: "ConsumeTransactionQueue (ConnId ctx) h = (queue, h1)" by fastforce
  then have "list_all queueable queue" using queues_ok_Consume [OF assms, of "ConnId ctx"] by simp
  then have "exec_loop (handle_depth n) sch 1 queue [] h1 = exec_loop (handle_depth 0) sch 1 queue [] h1"
    by (intro exec_loop_inner_cong) (auto simp: list_all_iff intro: handle_depth_not_exec)
  then show ?thesis by (simp add: HandleExec_def q)
qed

lemma handle_depth_enough:
  assumes "queues_ok h"
  shows "handle_depth (Suc n) sch ctx s h = HandleCommand sch ctx s h"
proof -
  have "run_command (HandleExec (handle_depth n)) sch ctx s h = run_command (HandleExec (handle_depth 0)) sch ctx s h"
    using HandleExec_depth [OF assms, of n sch ctx] by (simp add: run_command_def dispatch_def Let_def)
  then show ?thesis by (simp add: HandleCommand_def handle_depth.simps)
qed

section \<open>No handler runs out of depth\<close>

lemma with_ret_TooDeep:
  "fst (with_ret m h f) \<noteq> TooDeep \<longleftrightarrow> (\<forall>a. m = Ret a \<longrightarrow> fst (f a) \<noteq> TooDeep)"
  by (cases m) (auto simp: with_ret_def)

lemma handlers_not_TooDeep:
  "fst (HandlePing h) \<noteq> TooDeep" "fst (HandleWait h) \<noteq> TooDeep" "fst (HandleEcho args h) \<noteq> TooDeep"
  "fst (HandleInfo h) \<noteq> TooDeep" "fst (HandleReplconf args h) \<noteq> TooDeep" "fst (HandleConfig e args h) \<noteq> TooDeep"
  "fst (HandleKeys e h) \<noteq> TooDeep" "fst (HandlePSync h) \<noteq> TooDeep" "fst (HandleSet e args h) \<noteq> TooDeep"
  "fst (HandleMulti ctx h) \<noteq> TooDeep" "fst (HandleDiscard ctx h) \<noteq> TooDeep"
  by (auto simp: HandlePing_def HandleWait_def HandleEcho_def HandleInfo_def HandleReplconf_def
      HandleConfig_def HandleKeys_def HandlePSync_def HandleSet_def HandleMulti_def HandleDiscard_def
      with_ret_TooDeep Let_def split: go.splits prod.splits option.splits go_value.splits)

lemma store_handlers_not_TooDeep:
  "fst (HandleGet e args h) \<noteq> TooDeep" "fst (HandleType e args h) \<noteq> TooDeep"
  "fst (HandleIncr e args h) \<noteq> TooDeep" "fst (HandleXAdd e args h) \<noteq> TooDeep"
  "fst (HandleXRange e args h) \<noteq> TooDeep" "fst (HandleXRead e args h) \<noteq> TooDeep"
  by (auto simp: HandleGet_def HandleType_def HandleIncr_def HandleXAdd_def HandleXRange_def
      HandleXRead_def with_ret_TooDeep Let_def
      split: go.splits prod.splits option.splits go_value.splits)

lemma run_command_not_TooDeep:
  assumes "to_lower s = ''exec'' \<Longrightarrow> fst (exec sch ctx h) \<noteq> TooDeep"
  shows "fst (run_command exec sch ctx s h) \<noteq> TooDeep"
  using assms handlers_not_TooDeep store_handlers_not_TooDeep
  by (simp add: run_command_def dispatch_def Let_def)

lemma exec_loop_not_TooDeep:
  assumes "\<And>c sch ctx h. c \<in> set queue \<Longrightarrow> fst (inner sch ctx (qcommand c) h) \<noteq> TooDeep"
  shows "fst (exec_loop inner sch i queue result h) \<noteq> TooDeep"
  using assms
proof (induction queue arbitrary: i result h)
  case (Cons c queue)
  have "fst (inner (\<lambda>j. sch (i + j)) \<lparr>ConnId = 0, RespArr = qarr c\<rparr> (qcommand c) h) \<noteq> TooDeep"
    by (rule Cons.prems) simp
  moreover obtain out h1 where
    "inner (\<lambda>j. sch (i + j)) \<lparr>ConnId = 0, RespArr = qarr c\<rparr> (qcommand c) h = (out, h1)"
    by fastforce
  ultimately show ?case using Cons by (cases out) auto
qed simp

lemma HandleCommand_not_TooDeep:
  assumes "queues_ok h" shows "fst (HandleCommand sch ctx s h) \<noteq> TooDeep"
proof -
  obtain queue h1 where q: "ConsumeTransactionQueue (ConnId ctx) h = (queue, h1)" by fastforce
  then have "list_all queueable queue" using queues_ok_Consume [OF assms, of "ConnId ctx"] by simp
  then have "fst (handle_depth 0 sch ctx (qcommand c) h) \<noteq> TooDeep" if "c \<in> set queue" for c sch ctx h
    using that by (auto simp: list_all_iff queueable_def handle_depth.simps intro!: run_command_not_TooDeep)
  then have "fst (exec_loop (handle_depth 0) sch 1 queue [] h1) \<noteq> TooDeep"
    by (rule exec_loop_not_TooDeep)
  then have "fst (HandleExec (handle_depth 0) sch ctx h) \<noteq> TooDeep" by (simp add: HandleExec_def q)
  then show ?thesis by (simp add: HandleCommand_def handle_depth.simps run_command_not_TooDeep)
qed

end
