(* ===== verification/Transactions.thy ===== *)
theory Transactions
  imports Commands
begin

text \<open>
  What transactions do: requests of one connection in a row (\<open>serve_all\<close>), a
  transaction against the same requests without one, and the transaction that a queued
  MULTI opens for the zero UUID. The reachable states are those that requests of
  connections with a real id lead to, one request at a time in any order.
\<close>

type_synonym request = "string \<times> resp list"

text \<open>
  A connection's requests in order; request number \<open>i\<close> starts the schedule at \<open>i\<close>.
\<close>

fun serve_all :: "schedule \<Rightarrow> nat \<Rightarrow> uuid \<Rightarrow> request list \<Rightarrow> host \<Rightarrow> outcome list \<times> host" where
  "serve_all sch i c [] h = ([], h)"
| "serve_all sch i c ((name, args) # reqs) h =
     (case HandleCommand (\<lambda>j. sch (i + j)) \<lparr>ConnId = c, RespArr = args\<rparr> name h of (out, h1) \<Rightarrow>
       (case serve_all sch (i + 1) c reqs h1 of (outs, h2) \<Rightarrow> (out # outs, h2)))"

section \<open>Commands that leave the queues alone\<close>

definition plain_name :: "string \<Rightarrow> bool" where
  "plain_name s \<longleftrightarrow> to_lower s \<notin> {''multi'', ''exec'', ''discard''}"

lemma with_ret_frame:
  "(\<And>a. m = Ret a \<Longrightarrow> TxQueue (snd (f a)) = TxQueue h) \<Longrightarrow> TxQueue (snd (with_ret m h f)) = TxQueue h"
  by (cases m) (auto simp: with_ret_def)

lemma handlers_TxQueue:
  "TxQueue (snd (HandleConfig e args h)) = TxQueue h" "TxQueue (snd (HandleGet e args h)) = TxQueue h"
  "TxQueue (snd (HandleType e args h)) = TxQueue h" "TxQueue (snd (HandleSet e args h)) = TxQueue h"
  "TxQueue (snd (HandleIncr e args h)) = TxQueue h" "TxQueue (snd (HandleXAdd e args h)) = TxQueue h"
  by (auto simp: HandleConfig_def HandleGet_def HandleType_def HandleSet_def HandleIncr_def
      HandleXAdd_def Let_def intro!: with_ret_frame
      split: prod.splits option.splits go_value.splits go.splits)

lemma dispatch_TxQueue:
  "s \<notin> {''multi'', ''exec'', ''discard''} \<Longrightarrow> TxQueue (snd (dispatch exec sch ctx s h)) = TxQueue h"
  by (simp add: dispatch_def Let_def readonly_handlers handlers_TxQueue)

lemma dispatch_ctx:
  "s \<notin> {''multi'', ''exec'', ''discard''} \<Longrightarrow> RespArr ctx = RespArr ctx' \<Longrightarrow>
   dispatch exec sch ctx s h = dispatch exec' sch ctx' s h"
  by (simp add: dispatch_def Let_def)

text \<open>The state with another queue for one connection.\<close>

definition with_queue :: "uuid \<Rightarrow> queued_command list \<Rightarrow> host \<Rightarrow> host" where
  "with_queue c q h = h\<lparr>TxQueue := (TxQueue h)(c \<mapsto> q)\<rparr>"

lemma with_queue_same [simp]: "with_queue c q (with_queue c q' h) = with_queue c q h"
  by (rule host.equality) (simp_all add: with_queue_def fun_eq_iff)

lemma with_queue_idem: "TxQueue h c = Some q \<Longrightarrow> with_queue c q h = h"
  by (simp add: with_queue_def fun_upd_idem)

lemma with_queue_sel [simp]:
  "TxQueue (with_queue c q h) = (TxQueue h)(c \<mapsto> q)" "Store (with_queue c q h) = Store h"
  by (simp_all add: with_queue_def)

lemma HandleCommand_direct:
  assumes "TxQueue h (ConnId ctx) = None"
  shows "HandleCommand sch ctx s h = dispatch (HandleExec (handle_depth 0)) sch ctx (to_lower s) h"
  using assms by (simp add: HandleCommand_def handle_depth.simps run_command_def Let_def IsInTransaction_def)

lemma HandleCommand_queued:
  assumes "TxQueue h (ConnId ctx) = Some q" "to_lower s \<noteq> ''exec''" "to_lower s \<noteq> ''discard''"
  shows "HandleCommand sch ctx s h = (reply (RespSimpleString ''QUEUED''),
    with_queue (ConnId ctx) (q @ [\<lparr>qcommand = to_lower s, qarr = RespArr ctx\<rparr>]) h)"
  using assms by (simp add: HandleCommand_def handle_depth.simps run_command_def Let_def
      IsInTransaction_def QueueCommand_def with_queue_def)

text \<open>Inside EXEC a plain command does what it does on a connection without a transaction.\<close>

lemma inner_plain:
  assumes "plain_name s" "TxQueue h 0 = None" "TxQueue h c = None"
  shows "handle_depth 0 sch \<lparr>ConnId = 0, RespArr = args\<rparr> (to_lower s) h
    = HandleCommand sch \<lparr>ConnId = c, RespArr = args\<rparr> s h"
    "TxQueue (snd (HandleCommand sch \<lparr>ConnId = c, RespArr = args\<rparr> s h)) = TxQueue h"
proof -
  have "HandleCommand sch \<lparr>ConnId = c, RespArr = args\<rparr> s h
      = dispatch (HandleExec (handle_depth 0)) sch \<lparr>ConnId = c, RespArr = args\<rparr> (to_lower s) h"
    using assms by (intro HandleCommand_direct) simp
  moreover have "handle_depth 0 sch \<lparr>ConnId = 0, RespArr = args\<rparr> (to_lower s) h
      = dispatch (\<lambda>sch ctx h. (TooDeep, h)) sch \<lparr>ConnId = 0, RespArr = args\<rparr> (to_lower s) h"
    using assms by (simp add: handle_depth.simps run_command_def Let_def IsInTransaction_def)
  ultimately show "handle_depth 0 sch \<lparr>ConnId = 0, RespArr = args\<rparr> (to_lower s) h
      = HandleCommand sch \<lparr>ConnId = c, RespArr = args\<rparr> s h"
    "TxQueue (snd (HandleCommand sch \<lparr>ConnId = c, RespArr = args\<rparr> s h)) = TxQueue h"
    using assms(1) dispatch_ctx [of "to_lower s"] dispatch_TxQueue [of "to_lower s"]
    by (auto simp: plain_name_def)
qed

section \<open>A transaction is its commands in a row\<close>

definition queue_of :: "request list \<Rightarrow> queued_command list" where
  "queue_of reqs = map (\<lambda>(name, args). \<lparr>qcommand = to_lower name, qarr = args\<rparr>) reqs"

lemma exec_loop_serial:
  assumes "list_all (plain_name \<circ> fst) reqs" "TxQueue h 0 = None" "TxQueue h c = None"
    and "serve_all sch i c reqs h = (map Reply rs, h')"
  shows "exec_loop (handle_depth 0) sch i (queue_of reqs) done h
    = (Reply (resp_arr_string_from_strings (done @ rs)), h')"
  using assms
proof (induction reqs arbitrary: i rs h "done")
  case Nil
  then show ?case by (simp add: queue_of_def)
next
  case (Cons req reqs)
  obtain name args where req: "req = (name, args)" by fastforce
  obtain out h1 where step:
    "HandleCommand (\<lambda>j. sch (i + j)) \<lparr>ConnId = c, RespArr = args\<rparr> name h = (out, h1)" by fastforce
  from Cons.prems req have plain: "plain_name name" by simp
  from Cons.prems(4) req step obtain r rs' where r: "out = Reply r" "rs = r # rs'"
    "serve_all sch (i + 1) c reqs h1 = (map Reply rs', h')"
    by (auto split: prod.splits)
  have q: "TxQueue h1 = TxQueue h"
    using inner_plain(2) [OF plain Cons.prems(2,3), of "\<lambda>j. sch (i + j)" args] step by simp
  have "exec_loop (handle_depth 0) sch (i + 1) (queue_of reqs) (done @ [r]) h1
      = (Reply (resp_arr_string_from_strings ((done @ [r]) @ rs')), h')"
    using Cons.prems q r(3) by (intro Cons.IH) simp_all
  then show ?case
    using inner_plain(1) [OF plain Cons.prems(2,3), of "\<lambda>j. sch (i + j)" args] step r req
    by (simp add: queue_of_def)
qed

text \<open>Queueing requests changes only the queue, and answers QUEUED to each.\<close>

lemma serve_all_queued:
  assumes "list_all (plain_name \<circ> fst) reqs" "TxQueue h c = Some q"
  shows "serve_all sch i c reqs h =
    (replicate (length reqs) (reply (RespSimpleString ''QUEUED'')),
     with_queue c (q @ queue_of reqs) h)"
  using assms
proof (induction reqs arbitrary: i h q)
  case Nil
  then show ?case by (simp add: queue_of_def with_queue_idem)
next
  case (Cons req reqs)
  obtain name args where req: "req = (name, args)" by fastforce
  let ?h = "with_queue c (q @ [\<lparr>qcommand = to_lower name, qarr = args\<rparr>]) h"
  have "HandleCommand (\<lambda>j. sch (i + j)) \<lparr>ConnId = c, RespArr = args\<rparr> name h
      = (reply (RespSimpleString ''QUEUED''), ?h)"
    using Cons.prems req by (subst HandleCommand_queued) (auto simp: plain_name_def)
  then show ?case using Cons.prems Cons.IH [of ?h "q @ [\<lparr>qcommand = to_lower name, qarr = args\<rparr>]"] req
    by (simp add: queue_of_def)
qed

lemma exec_queue:
  assumes "TxQueue h (ConnId ctx) = Some q"
  shows "HandleCommand sch ctx ''exec'' h
    = exec_loop (handle_depth 0) sch 1 q [] (h\<lparr>TxQueue := (TxQueue h)(ConnId ctx := None)\<rparr>)"
proof -
  have "to_lower ''exec'' = ''exec''" by code_simp
  then show ?thesis using assms
    by (simp add: HandleCommand_def handle_depth.simps run_command_def dispatch_def Let_def
        IsInTransaction_def HandleExec_def ConsumeTransactionQueue_def)
qed

lemma exec_serial:
  assumes "list_all (plain_name \<circ> fst) reqs" "TxQueue h 0 = None" "TxQueue h c = None"
    and "serve_all sch 1 c reqs h = (map Reply rs, h')"
  shows "HandleCommand sch \<lparr>ConnId = c, RespArr = args\<rparr> ''exec'' (with_queue c (queue_of reqs) h)
    = (Reply (resp_arr_string_from_strings rs), h')"
proof -
  have "(TxQueue h)(c := None) = TxQueue h" using assms(3) by auto
  then have "(with_queue c (queue_of reqs) h)\<lparr>TxQueue := (TxQueue (with_queue c (queue_of reqs) h))(c := None)\<rparr> = h"
    by (simp add: with_queue_def)
  then show ?thesis using exec_loop_serial [OF assms, of "[]"] by (simp add: exec_queue)
qed

section \<open>A queued MULTI\<close>

text \<open>
  EXEC gives its commands the zero UUID, so a queued MULTI opens a transaction for it.
  While that is open every EXEC only queues its commands there.
\<close>

lemma inner_queued:
  assumes "TxQueue h 0 = Some z" "queueable c"
  shows "handle_depth 0 sch \<lparr>ConnId = 0, RespArr = qarr c\<rparr> (qcommand c) h
    = (reply (RespSimpleString ''QUEUED''), with_queue 0 (z @ [c]) h)"
proof (cases c)
  case (fields s a)
  then show ?thesis using assms
    by (simp add: with_queue_def handle_depth.simps run_command_def Let_def IsInTransaction_def QueueCommand_def queueable_def)
qed

lemma exec_loop_stuck:
  assumes "TxQueue h 0 = Some z" "list_all queueable q"
  shows "exec_loop (handle_depth 0) sch i q done h =
    (Reply (resp_arr_string_from_strings (done @ replicate (length q) (as_resp_string (RespSimpleString ''QUEUED'')))),
     with_queue 0 (z @ q) h)"
  using assms
proof (induction q arbitrary: i h z "done")
  case Nil
  then show ?case by (simp add: with_queue_idem)
next
  case (Cons c q)
  then show ?case by (simp add: inner_queued del: as_resp_string.simps)
qed

lemma exec_stuck:
  assumes "TxQueue h 0 = Some z" "TxQueue h (ConnId ctx) = Some q" "ConnId ctx \<noteq> 0" "queues_ok h"
  shows "HandleCommand sch ctx ''exec'' h =
    (reply (RespArray (replicate (length q) (RespSimpleString ''QUEUED''))),
     with_queue 0 (z @ q) (h\<lparr>TxQueue := (TxQueue h)(ConnId ctx := None)\<rparr>))"
proof -
  have "list_all queueable q" using assms(2,4) by (auto simp: queues_ok_def)
  moreover have "resp_arr_string_from_strings (replicate n (as_resp_string v))
      = as_resp_string (RespArray (replicate n v))" for n v
    by (metis resp_arr_string_from_strings_map map_replicate)
  ultimately show ?thesis using assms
    by (simp add: exec_queue exec_loop_stuck del: as_resp_string.simps)
qed

text \<open>An EXEC that answers has run its whole queue, so a MULTI in it has opened that transaction.\<close>

lemma exec_loop_opens:
  assumes "list_all queueable q" "exec_loop (handle_depth 0) sch i q result h = (Reply r, h')"
    and "TxQueue h 0 \<noteq> None \<or> (\<exists>c \<in> set q. qcommand c = ''multi'')"
  shows "TxQueue h' 0 \<noteq> None"
  using assms
proof (induction q arbitrary: i result h)
  case (Cons c q)
  obtain res h1 where s: "handle_depth 0 (\<lambda>j. sch (i + j)) \<lparr>ConnId = 0, RespArr = qarr c\<rparr> (qcommand c) h = (Reply res, h1)"
    "exec_loop (handle_depth 0) sch (i + 1) q (result @ [res]) h1 = (Reply r, h')"
    using Cons.prems(2) by (auto split: prod.splits outcome.splits)
  have "TxQueue h1 0 \<noteq> None" if "TxQueue h 0 = Some z" for z
    using inner_queued [OF that, of c] s(1) Cons.prems(1) by auto
  moreover have "TxQueue h1 0 \<noteq> None" if "TxQueue h 0 = None" "qcommand c = ''multi''"
  proof -
    have "to_lower ''multi'' = ''multi''" by code_simp
    then show ?thesis using s(1) that
      by (auto simp: handle_depth.simps run_command_def dispatch_def HandleMulti_def IsInTransaction_def BeginTransaction_def Let_def)
  qed
  ultimately have "TxQueue h1 0 \<noteq> None \<or> (\<exists>c \<in> set q. qcommand c = ''multi'')" using Cons.prems(3) by auto
  then show ?case using Cons.IH [OF _ s(2)] Cons.prems(1) by simp
qed simp

lemma exec_opens_zero:
  assumes "host_ok h" "TxQueue h (ConnId ctx) = Some q" "\<exists>c \<in> set q. qcommand c = ''multi''"
    and "HandleCommand sch ctx ''exec'' h = (Reply r, h')"
  shows "TxQueue h' 0 \<noteq> None"
  using assms exec_queue [OF assms(2), of sch]
  by (intro exec_loop_opens [of q sch 1 "[]" _ r h']) (auto simp: host_ok_def queues_ok_def)

section \<open>Reachable states\<close>

definition init_host :: "string \<Rightarrow> int \<Rightarrow> string \<Rightarrow> kv_store \<Rightarrow> kv_store \<Rightarrow> host" where
  "init_host leader port replid st conf =
     \<lparr>Store = st, ConfigStore = conf, LeaderAddr = leader, Port = port, LeaderReplId = replid,
      ProcessedBytes = 0, TxQueue = Map.empty, Published = []\<rparr>"

text \<open>
  One request of some connection, whose id is never the zero UUID; the process goes on
  unless the request crashed it.
\<close>

inductive host_step :: "host \<Rightarrow> host \<Rightarrow> bool" where
  request: "ConnId ctx \<noteq> 0 \<Longrightarrow> HandleCommand sch ctx s h = (out, h') \<Longrightarrow> out \<noteq> Crash \<Longrightarrow> host_step h h'"

inductive_cases host_stepE: "host_step h h'"

inductive reachable :: "host \<Rightarrow> host \<Rightarrow> bool" for h0 :: host where
  start: "reachable h0 h0"
| step: "reachable h0 h \<Longrightarrow> host_step h h' \<Longrightarrow> reachable h0 h'"

lemma host_step_ok: "host_step h h' \<Longrightarrow> host_ok h \<Longrightarrow> host_ok h'"
  by (erule host_stepE) (metis HandleCommand_def handle_depth_ok snd_conv)

lemma reachable_ok: "reachable h0 h \<Longrightarrow> host_ok h0 \<Longrightarrow> host_ok h"
  by (induction rule: reachable.induct) (auto intro: host_step_ok)

text \<open>No step of a real connection closes the transaction of the zero UUID.\<close>

lemma zero_open_dispatch:
  assumes "TxQueue h 0 \<noteq> None" "ConnId ctx \<noteq> 0" "queues_ok h"
  shows "TxQueue (snd (HandleCommand sch ctx s h)) 0 \<noteq> None"
proof (cases "TxQueue h (ConnId ctx)")
  case None
  have "TxQueue (snd (dispatch ex sch ctx s' h)) 0 \<noteq> None" if "s' \<noteq> ''exec''" for ex s'
    using dispatch_TxQueue [of s' ex sch ctx h] assms that None
    by (cases "s' \<in> {''multi'', ''exec'', ''discard''}")
       (auto simp: dispatch_def HandleMulti_def HandleDiscard_def BeginTransaction_def IsInTransaction_def)
  moreover have "snd (dispatch (HandleExec (handle_depth 0)) sch ctx ''exec'' h) = h"
    using None by (simp add: dispatch_def HandleExec_def IsInTransaction_def)
  ultimately show ?thesis using assms(1) None
    by (cases "to_lower s = ''exec''") (auto simp: HandleCommand_direct)
next
  case (Some q)
  obtain z where z: "TxQueue h 0 = Some z" using assms(1) by auto
  have ex: "HandleCommand sch ctx s h = HandleCommand sch ctx ''exec'' h" if "to_lower s = ''exec''"
  proof -
    have "to_lower ''exec'' = ''exec''" by code_simp
    then show ?thesis using that by (simp add: HandleCommand_def handle_depth.simps run_command_def)
  qed
  consider (exec) "to_lower s = ''exec''" | (discard) "to_lower s = ''discard''"
    | (other) "to_lower s \<noteq> ''exec''" "to_lower s \<noteq> ''discard''" by blast
  then show ?thesis
  proof cases
    case exec
    then show ?thesis using ex exec_stuck [OF z Some assms(2,3)] by simp
  next
    case discard
    then show ?thesis using assms Some z
      by (simp add: HandleCommand_def handle_depth.simps run_command_def dispatch_def HandleDiscard_def
          IsInTransaction_def ConsumeTransactionQueue_def)
  next
    case other
    then show ?thesis using HandleCommand_queued [OF Some other] z assms(2) by simp
  qed
qed

lemma zero_open_forever:
  "reachable h h' \<Longrightarrow> host_ok h \<Longrightarrow> TxQueue h 0 \<noteq> None \<Longrightarrow> TxQueue h' 0 \<noteq> None"
proof (induction rule: reachable.induct)
  case (step h1 h2)
  then have q: "queues_ok h1" using reachable_ok [OF step.hyps(1)] by (simp add: host_ok_def)
  have z: "TxQueue h1 0 \<noteq> None" using step by blast
  from step.hyps(2) show ?case
  proof (rule host_stepE)
    fix ctx sch s out
    assume "ConnId ctx \<noteq> 0" and run: "HandleCommand sch ctx s h1 = (out, h2)"
    then show ?thesis using zero_open_dispatch [OF z _ q, of ctx sch s] by (simp add: run)
  qed
qed simp

section \<open>Properties\<close>

lemma serve_all_shift: "serve_all (\<lambda>j. sch (m + j)) i c reqs h = serve_all sch (m + i) c reqs h"
  by (induction reqs arbitrary: i h) (auto simp: add.assoc split: prod.splits)

lemma serve_all_append:
  "serve_all sch i c (xs @ ys) h = (case serve_all sch i c xs h of (o1, h1) \<Rightarrow>
     (case serve_all sch (i + length xs) c ys h1 of (o2, h2) \<Rightarrow> (o1 @ o2, h2)))"
  by (induction xs arbitrary: i h) (auto split: prod.splits)

lemma HandleCommand_multi:
  "TxQueue h c = None \<Longrightarrow>
   HandleCommand sch \<lparr>ConnId = c, RespArr = args\<rparr> ''multi'' h = (reply (RespSimpleString ''OK''), with_queue c [] h)"
proof -
  assume "TxQueue h c = None"
  moreover have "to_lower ''multi'' = ''multi''" by code_simp
  ultimately show ?thesis
    by (simp add: HandleCommand_direct dispatch_def Let_def HandleMulti_def BeginTransaction_def with_queue_def)
qed

text \<open>C2. Transactions are serial: when the requests \<open>reqs\<close>, none of which is MULTI, EXEC or
  DISCARD, would all be answered on a connection without a transaction, in a state where the
  zero UUID has no transaction open either, then MULTI, the requests and EXEC, with nothing of
  another connection between them, leave the same shared state as the requests alone at the
  times EXEC runs them, and EXEC's answer is the array of the answers.\<close>

theorem transaction_is_serial:
  assumes "list_all (plain_name \<circ> fst) reqs" "TxQueue h 0 = None" "TxQueue h c = None"
    and "serve_all sch (i + length reqs + 2) c reqs h = (map Reply rs, h')"
  shows "serve_all sch i c ((''multi'', a) # reqs @ [(''exec'', b)]) h =
    (reply (RespSimpleString ''OK'') # replicate (length reqs) (reply (RespSimpleString ''QUEUED''))
       @ [Reply (resp_arr_string_from_strings rs)], h')"
proof -
  let ?n = "i + length reqs + 1"
  have "serve_all (\<lambda>j. sch (?n + j)) 1 c reqs h = (map Reply rs, h')"
    using assms(4) by (simp only: serve_all_shift) simp
  from exec_serial [OF assms(1-3) this, of b]
  have "serve_all sch ?n c [(''exec'', b)] (with_queue c (queue_of reqs) h)
      = ([Reply (resp_arr_string_from_strings rs)], h')" by simp
  moreover have "serve_all sch (i + 1) c reqs (with_queue c [] h)
      = (replicate (length reqs) (reply (RespSimpleString ''QUEUED'')), with_queue c (queue_of reqs) h)"
    using serve_all_queued [OF assms(1), of "with_queue c [] h" c "[]"] by simp
  ultimately show ?thesis using assms(3)
    by (simp add: HandleCommand_multi serve_all_append del: as_resp_string.simps)
qed

definition fresh_host :: host where
  "fresh_host = init_host [] 6379 ''id'' new_kv_store new_kv_store"

lemma fresh_host_ok: "host_ok fresh_host" "TxQueue fresh_host c = None"
  by (simp_all add: fresh_host_def init_host_def host_ok_def queues_ok_def)

definition still_env :: "schedule" where
  "still_env n = \<lparr>now = 0, order = (\<lambda>_. [])\<rparr>"

theorem transaction_is_serial_witness:
  "\<exists>h'. serve_all still_env 0 7 [(''multi'', []), (''ECHO'', [RespSimpleString ''echo'', RespSimpleString ''a'']), (''exec'', [])] fresh_host
    = ([reply (RespSimpleString ''OK''), reply (RespSimpleString ''QUEUED''), Reply (''*1'' @ CRLF @ ''+a'' @ CRLF)], h')"
proof -
  let ?req = "(''ECHO'', [RespSimpleString ''echo'', RespSimpleString ''a''])"
  have l: "to_lower ''ECHO'' = ''echo''" and one: "itoa 1 = ''1''" by code_simp+
  have "serve_all still_env (0 + length [?req] + 2) 7 [?req] fresh_host = (map Reply [as_resp_string (RespSimpleString ''a'')], fresh_host)"
    using fresh_host_ok by (simp add: HandleCommand_direct l dispatch_def HandleEcho_def Let_def)
  moreover have "list_all (plain_name \<circ> fst) [?req]" by (simp add: plain_name_def l)
  ultimately have "serve_all still_env 0 7 ((''multi'', []) # [?req] @ [(''exec'', [])]) fresh_host
    = (reply (RespSimpleString ''OK'') # replicate (length [?req]) (reply (RespSimpleString ''QUEUED''))
       @ [Reply (resp_arr_string_from_strings [as_resp_string (RespSimpleString ''a'')])], fresh_host)"
    by (intro transaction_is_serial) (simp_all only: fresh_host_ok)
  then show ?thesis by (simp add: resp_arr_string_from_strings_def one)
qed

text \<open>In every state that requests of connections lead to from a well-formed one, in
  any order and interleaving, the streams of the store are sorted by ID with IDs in
  printed form, values have the types the handlers know, and no queue holds EXEC or
  DISCARD.\<close>

theorem reachable_states_well_formed:
  assumes "host_ok h0" "reachable h0 h"
  shows "host_ok h"
  by (rule reachable_ok [OF assms(2,1)])

theorem reachable_states_well_formed_witness:
  "host_ok (snd (HandleCommand still_env \<lparr>ConnId = 7, RespArr = []\<rparr> ''PING'' fresh_host))"
proof -
  have l: "to_lower ''PING'' = ''ping''" by code_simp
  have p: "HandleCommand still_env \<lparr>ConnId = 7, RespArr = []\<rparr> ''PING'' fresh_host = (Reply (''+PONG'' @ CRLF), fresh_host)"
    using fresh_host_ok by (simp add: HandleCommand_direct l dispatch_def HandlePing_def Let_def)
  then have "reachable fresh_host (snd (HandleCommand still_env \<lparr>ConnId = 7, RespArr = []\<rparr> ''PING'' fresh_host))"
    using host_step.request [OF _ p] by (auto intro: reachable.step [OF reachable.start])
  then show ?thesis by (rule reachable_states_well_formed [OF fresh_host_ok(1)])
qed

text \<open>C26. A MULTI that was queued inside a transaction opens a transaction of the zero UUID when
  EXEC of a connection runs it and answers, and no request of a connection can close that one:
  from then on, in every state reached, EXEC of a connection in a transaction runs none of its
  commands, answers QUEUED for each and moves them to that queue; the store stays as it was.\<close>

theorem nested_multi_blocks_exec:
  assumes "host_ok h0" "TxQueue h0 (ConnId ctx0) = Some q0" "\<exists>c \<in> set q0. qcommand c = ''multi''"
    and "HandleCommand sch0 ctx0 ''exec'' h0 = (Reply r, h)"
    and "reachable h h'" "TxQueue h' (ConnId ctx) = Some q" "ConnId ctx \<noteq> 0"
  shows "TxQueue h 0 \<noteq> None
    \<and> fst (HandleCommand sch ctx ''exec'' h') = reply (RespArray (replicate (length q) (RespSimpleString ''QUEUED'')))
    \<and> Store (snd (HandleCommand sch ctx ''exec'' h')) = Store h'
    \<and> (\<exists>z. TxQueue h' 0 = Some z \<and> TxQueue (snd (HandleCommand sch ctx ''exec'' h')) 0 = Some (z @ q))"
proof -
  have open0: "TxQueue h 0 \<noteq> None" by (rule exec_opens_zero [OF assms(1-4)])
  have ok: "host_ok h" using handle_depth_ok [OF assms(1), of 1 sch0 ctx0 "''exec''"] assms(4) by (simp add: HandleCommand_def)
  obtain z where z: "TxQueue h' 0 = Some z" using zero_open_forever [OF assms(5) ok open0] by auto
  have "queues_ok h'" using reachable_ok [OF assms(5) ok] by (simp add: host_ok_def)
  from exec_stuck [OF z assms(6,7) this, of sch] z assms(7) open0 show ?thesis
    by (simp del: as_resp_string.simps)
qed

theorem nested_multi_blocks_exec_witness:
  "\<exists>h h'. HandleCommand still_env \<lparr>ConnId = 7, RespArr = []\<rparr> ''exec'' (with_queue 7 [\<lparr>qcommand = ''multi'', qarr = []\<rparr>] fresh_host)
      = (reply (RespArray [RespSimpleString ''OK'']), h)
    \<and> serve_all still_env 0 8 [(''multi'', []), (''PING'', []), (''exec'', [])] h
      = ([reply (RespSimpleString ''OK''), reply (RespSimpleString ''QUEUED''), reply (RespArray [RespSimpleString ''QUEUED''])], h')"
proof -
  let ?h0 = "with_queue 7 [\<lparr>qcommand = ''multi'', qarr = []\<rparr>] fresh_host" and ?e = "\<lparr>ConnId = 7, RespArr = []\<rparr>"
  have l: "to_lower ''multi'' = ''multi''" "to_lower ''PING'' = ''ping''" "to_lower ''ping'' = ''ping''" and n: "itoa 1 = ''1''"
    by code_simp+
  have ok: "host_ok ?h0" using fresh_host_ok l by (auto simp: host_ok_def queues_ok_def with_queue_def queueable_def)
  obtain h where h: "HandleCommand still_env ?e ''exec'' ?h0 = (reply (RespArray [RespSimpleString ''OK'']), h)" "TxQueue h 8 = None"
    using fresh_host_ok(2) l n
    by (simp add: exec_queue handle_depth.simps run_command_def dispatch_def HandleMulti_def IsInTransaction_def
        BeginTransaction_def with_queue_def resp_arr_string_from_strings_def Let_def)
  let ?h1 = "with_queue 8 [] h" and ?h2 = "with_queue 8 [\<lparr>qcommand = ''ping'', qarr = []\<rparr>] h"
  have multi: "HandleCommand sch \<lparr>ConnId = 8, RespArr = []\<rparr> ''multi'' h = (reply (RespSimpleString ''OK''), ?h1)" for sch
    by (rule HandleCommand_multi [OF h(2)])
  have ping: "HandleCommand sch \<lparr>ConnId = 8, RespArr = []\<rparr> ''PING'' ?h1 = (reply (RespSimpleString ''QUEUED''), ?h2)" for sch
    using HandleCommand_queued [of ?h1 "\<lparr>ConnId = 8, RespArr = []\<rparr>" "[]" "''PING''" sch] l(2) by simp
  have "reachable h ?h2"
    using host_step.request [OF _ multi [of still_env]] host_step.request [OF _ ping [of still_env]]
    by (auto intro: reachable.step [OF reachable.step [OF reachable.start]])
  from nested_multi_blocks_exec [OF ok _ _ h(1) this, of "[\<lparr>qcommand = ''multi'', qarr = []\<rparr>]" "\<lparr>ConnId = 8, RespArr = []\<rparr>"]
  have "fst (HandleCommand sch \<lparr>ConnId = 8, RespArr = []\<rparr> ''exec'' ?h2) = reply (RespArray [RespSimpleString ''QUEUED''])" for sch
    by (simp del: as_resp_string.simps)
  with h(1) multi ping show ?thesis
    by (auto simp del: as_resp_string.simps split: prod.splits) (metis fst_conv)
qed

end
