(* ===== verification/Connections.thy ===== *)
theory Connections
  imports Resp_Parser Transactions
begin

text \<open>
  One client connection: \<open>ParseServerCommand\<close> (redis-go/app/cmd/main.go) and the loop
  of \<open>handleConnection\<close> (redis-go/app/server.go). A \<open>connection\<close> is the loop's state:
  its id, the lexer, the bytes written to the client, and how it stands.

  \<open>connection_step\<close> is one turn of the loop; between two turns other connections may
  change the shared state. \<open>handleConnection\<close> is the loop with no other connection in
  between, and ends because every request takes bytes off the input.
\<close>

section \<open>Reading one request\<close>

definition ParseServerCommand :: "lexer \<Rightarrow> (string \<times> resp list) go \<times> lexer" where
  "ParseServerCommand l =
     (case parse l of
        (Err e, l1) \<Rightarrow> (Err (if e = EOF then EOF else Wrapped ''error couldnt parse: '' e), l1)
      | (Panic, l1) \<Rightarrow> (Panic, l1)
      | (Ret c, l1) \<Rightarrow>
          (case c of
             RespArray elements \<Rightarrow>
               (case elements of
                  [] \<Rightarrow> (Err (ErrorString ''error expected to parse parser output as a resparray''), l1)
                | command # _ \<Rightarrow>
                    (case command of
                       RespBulkString content \<Rightarrow> (Ret (content, elements), l1)
                     | _ \<Rightarrow> (Err (ErrorString
                         ''error expected bulk string as first element of resparray''), l1)))
           | _ \<Rightarrow> (Err (ErrorString ''error expected parser output to be a resparray''), l1)))"

text \<open>A command, or an error that is not the end of the input, takes something off the input.\<close>

lemma ParseServerCommand_remaining:
  assumes "ParseServerCommand l = (x, l')" "x \<noteq> Err EOF"
  shows "remaining (lreader l') < remaining (lreader l)"
proof -
  obtain v where v: "parse l = (v, l')" "v \<noteq> Err EOF"
    using assms by (cases "parse l") (auto simp: ParseServerCommand_def split: go.splits resp.splits list.splits if_splits)
  from parse_remaining(1) [OF v(1)] v(2) show ?thesis by simp
qed

section \<open>The connection loop\<close>

text \<open>
  \<open>Open\<close> while the loop runs, \<open>Closed\<close> after \<open>return\<close>, \<open>Crashed\<close> when the process ended,
  \<open>Replica\<close> when the connection became a replication stream; \<open>CutOff\<close> stands for the
  dispatcher's depth bound and is never reached from a well-formed state.
\<close>

datatype conn_status = Open | Closed | Crashed | Replica | CutOff

record connection =
  ident :: uuid
  clexer :: lexer
  written :: string
  status :: conn_status

definition connection_step :: "schedule \<Rightarrow> connection \<Rightarrow> host \<Rightarrow> connection \<times> host" where
  "connection_step sch c h =
     (case ParseServerCommand (clexer c) of
        (Err e, l) \<Rightarrow> (c\<lparr>clexer := l, status := Closed\<rparr>, h)
      | (Panic, l) \<Rightarrow> (c\<lparr>clexer := l, status := Crashed\<rparr>, h)
      | (Ret (name, arr), l) \<Rightarrow>
          (case HandleCommand sch \<lparr>ConnId = ident c, RespArr = arr\<rparr> name h of
             (Reply res, h1) \<Rightarrow> (c\<lparr>clexer := l, written := written c @ res\<rparr>, h1)
           | (Fails err, h1) \<Rightarrow> (c\<lparr>clexer := l, status := Closed\<rparr>, h1)
           | (Crash, h1) \<Rightarrow> (c\<lparr>clexer := l, status := Crashed\<rparr>, h1)
           | (Streaming w, h1) \<Rightarrow> (c\<lparr>clexer := l, written := written c @ w, status := Replica\<rparr>, h1)
           | (TooDeep, h1) \<Rightarrow> (c\<lparr>clexer := l, status := CutOff\<rparr>, h1)))"

lemma ParseServerCommand_takes:
  assumes "ParseServerCommand l = (Ret (name, arr), l')"
  shows "takes 1 l l'" "parse l = (Ret (RespArray arr), l')" "hd arr = RespBulkString name" "arr \<noteq> []"
proof -
  show p: "parse l = (Ret (RespArray arr), l')"
    using assms by (auto simp: ParseServerCommand_def split: prod.splits go.splits resp.splits list.splits)
  then show "takes 1 l l'" by (rule parse_takes)
  show "hd arr = RespBulkString name" "arr \<noteq> []"
    using assms p by (auto simp: ParseServerCommand_def split: list.splits resp.splits)
qed

text \<open>A turn that keeps the connection open handled one request.\<close>

lemma connection_step_open:
  assumes "connection_step sch c h = (c', h')" "status c = Open" "status c' = Open"
  obtains name arr l res where
    "ParseServerCommand (clexer c) = (Ret (name, arr), l)"
    "HandleCommand sch \<lparr>ConnId = ident c, RespArr = arr\<rparr> name h = (Reply res, h')"
    "c' = c\<lparr>clexer := l, written := written c @ res\<rparr>"
  using assms by (auto simp: connection_step_def split: prod.splits go.splits outcome.splits)

lemma connection_step_host:
  "snd (connection_step sch c h) = h
   \<or> (\<exists>name arr. snd (connection_step sch c h) = snd (HandleCommand sch \<lparr>ConnId = ident c, RespArr = arr\<rparr> name h))"
  by (auto simp: connection_step_def split: prod.splits go.splits outcome.splits) (metis snd_conv)+

function handleConnection :: "schedule \<Rightarrow> nat \<Rightarrow> connection \<Rightarrow> host \<Rightarrow> connection \<times> host" where
  "handleConnection sch i c h =
     (if status c \<noteq> Open then (c, h)
      else case connection_step (\<lambda>j. sch (i + j)) c h of (c1, h1) \<Rightarrow>
        if status c1 \<noteq> Open then (c1, h1) else handleConnection sch (i + 1) c1 h1)"
  by pat_completeness auto

termination
proof (relation "measure (\<lambda>(sch, i, c, h). length (lpending (clexer c)))", simp, goal_cases)
  case (1 sch i c h c1 h1)
  then have step: "connection_step (\<lambda>j. sch (i + j)) c h = (c1, h1)" by simp
  from 1 have "status c = Open" "status c1 = Open" by simp_all
  with step obtain name arr l res where
    "ParseServerCommand (clexer c) = (Ret (name, arr), l)" "c1 = c\<lparr>clexer := l, written := written c @ res\<rparr>"
    by (rule connection_step_open)
  then have "takes 1 (clexer c) (clexer c1)" using ParseServerCommand_takes by auto
  from takes_remaining [OF this] show ?case by simp
qed

declare handleConnection.simps [simp del]

section \<open>What the loop does to the shared state\<close>

text \<open>
  Whatever arrives, the loop runs some list of requests as \<open>serve_all\<close> does; all but
  perhaps the last were answered.
\<close>

lemma handleConnection_serves:
  assumes "status c = Open" "handleConnection sch i c h = (c', h')"
  shows "\<exists>reqs. snd (serve_all sch i (ident c) reqs h) = h'"
  using assms
proof (induction sch i c h rule: handleConnection.induct)
  case (1 sch i c h)
  obtain c1 h1 where step: "connection_step (\<lambda>j. sch (i + j)) c h = (c1, h1)" by fastforce
  show ?case
  proof (cases "status c1 = Open")
    case False
    then have "h' = h1" using 1 step by (simp add: handleConnection.simps [of sch i c h])
    moreover have "\<exists>reqs. snd (serve_all sch i (ident c) reqs h) = h1"
    proof -
      consider (none) "h1 = h" | (one) name arr where
        "h1 = snd (HandleCommand (\<lambda>j. sch (i + j)) \<lparr>ConnId = ident c, RespArr = arr\<rparr> name h)"
        using connection_step_host [of "\<lambda>j. sch (i + j)" c h] step by auto
      then show ?thesis
      proof cases
        case none
        then show ?thesis by (intro exI [of _ "[]"]) simp
      next
        case (one name arr)
        then show ?thesis by (intro exI [of _ "[(name, arr)]"]) (simp split: prod.splits)
      qed
    qed
    ultimately show ?thesis by simp
  next
    case True
    from connection_step_open [OF step \<open>status c = Open\<close> True]
    obtain name arr l res where req:
      "HandleCommand (\<lambda>j. sch (i + j)) \<lparr>ConnId = ident c, RespArr = arr\<rparr> name h = (Reply res, h1)"
      "c1 = c\<lparr>clexer := l, written := written c @ res\<rparr>" by metis
    have "handleConnection sch (i + 1) c1 h1 = (c', h')"
      using 1(2,3) step True by (simp add: handleConnection.simps [of sch i c h])
    with 1(1) [OF _ step [symmetric]] 1(2) True
    obtain reqs where "snd (serve_all sch (i + 1) (ident c1) reqs h1) = h'" by auto
    then show ?thesis using req by (intro exI [of _ "(name, arr) # reqs"]) (auto split: prod.splits)
  qed
qed

section \<open>Requests that arrive together\<close>

text \<open>A request as a client writes it: an array that starts with the command's name.\<close>

definition wire_request :: "resp list \<Rightarrow> bool" where
  "wire_request arr \<longleftrightarrow> wire_ok (RespArray arr) \<and> (\<exists>name rest. arr = RespBulkString name # rest)"

definition request_of :: "resp list \<Rightarrow> request" where
  "request_of arr = (case hd arr of RespBulkString name \<Rightarrow> name | _ \<Rightarrow> [], arr)"

abbreviation wire_of :: "resp list list \<Rightarrow> string" where
  "wire_of reqs \<equiv> concat (map (\<lambda>arr. as_resp_string (RespArray arr)) reqs)"

lemma ParseServerCommand_wire:
  assumes "wire_request arr" "length (as_resp_string (RespArray arr)) \<le> bufsize"
  shows "ParseServerCommand (holding l (as_resp_string (RespArray arr) @ t))
    = (Ret (request_of arr), holding (counting (length (as_resp_string (RespArray arr))) l) t)"
proof -
  obtain name rest where arr: "arr = RespBulkString name # rest" using assms(1) by (auto simp: wire_request_def)
  show ?thesis
    using parse_wire [of "RespArray arr" l t] assms
    by (simp add: ParseServerCommand_def wire_request_def request_of_def arr del: as_resp_string.simps)
qed

lemma ParseServerCommand_end:
  assumes "rsrc (lreader l) = []" "faults (lreader l) = []"
  shows "fst (ParseServerCommand (holding l [])) = Err EOF"
proof -
  have "fst (next_token (holding l [])) = Err EOF"
    using assms by (simp add: next_token_def read_byte_def fill_def holding_def)
  then obtain l1 where "next_token (holding l []) = (Err EOF, l1)" by (metis prod.collapse)
  then show ?thesis by (simp add: ParseServerCommand_def parse.simps [of "holding l []"])
qed

lemma handleConnection_wire:
  assumes "list_all wire_request reqs" "length (wire_of reqs) \<le> bufsize"
    and "clexer c = holding l (wire_of reqs)" "rsrc (lreader l) = []" "faults (lreader l) = []"
    and "status c = Open" "serve_all sch i (ident c) (map request_of reqs) h = (map Reply rs, h')"
  shows "\<exists>c'. handleConnection sch i c h = (c', h') \<and> written c' = written c @ concat rs \<and> status c' = Closed"
  using assms
proof (induction reqs arbitrary: i c l h rs)
  case Nil
  obtain r l1 where p: "ParseServerCommand (holding l []) = (r, l1)" by fastforce
  with ParseServerCommand_end [OF Nil(4,5)] have "r = Err EOF" by simp
  with p Nil show ?case by (simp add: handleConnection.simps [of sch i c] connection_step_def)
next
  case (Cons arr reqs)
  let ?w = "as_resp_string (RespArray arr)"
  obtain name where req: "request_of arr = (name, arr)" by (simp add: request_of_def)
  have p: "ParseServerCommand (clexer c)
      = (Ret (name, arr), holding (counting (length ?w) l) (wire_of reqs))"
    using ParseServerCommand_wire [of arr l "wire_of reqs"] Cons.prems(1-3) req
    by (simp del: as_resp_string.simps)
  obtain r h1 rs1 where h: "HandleCommand (\<lambda>j. sch (i + j)) \<lparr>ConnId = ident c, RespArr = arr\<rparr> name h = (Reply r, h1)"
    "serve_all sch (i + 1) (ident c) (map request_of reqs) h1 = (map Reply rs1, h')" "rs = r # rs1"
    using Cons.prems(7) req by (auto split: prod.splits)
  let ?c = "c\<lparr>clexer := holding (counting (length ?w) l) (wire_of reqs), written := written c @ r\<rparr>"
  have step: "connection_step (\<lambda>j. sch (i + j)) c h = (?c, h1)"
    using p h by (simp add: connection_step_def del: as_resp_string.simps)
  have "\<exists>c'. handleConnection sch (i + 1) ?c h1 = (c', h') \<and> written c' = written ?c @ concat rs1 \<and> status c' = Closed"
    using Cons.prems h by (intro Cons.IH [of _ "counting (length ?w) l"]) (simp_all del: as_resp_string.simps)
  then show ?case using Cons.prems(6) step h(3)
    by (simp add: handleConnection.simps [of sch i c h] del: as_resp_string.simps)
qed

section \<open>A new connection\<close>

definition new_connection :: "uuid \<Rightarrow> string list \<Rightarrow> go_error \<Rightarrow> connection" where
  "new_connection connId pieces e =
     \<lparr>ident = connId, clexer = new_lexer (new_reader pieces e), written = [], status = Open\<rparr>"

lemma handleConnection_refill:
  assumes "rbuf (lreader l) = []" "rsrc (lreader l) = s # cs" "s \<noteq> []" "length s \<le> bufsize" "clexer c = l"
    and "status c = Open"
  shows "handleConnection sch i c h
    = handleConnection sch i (c\<lparr>clexer := holding (l\<lparr>lreader := (lreader l)\<lparr>rsrc := cs\<rparr>\<rparr>) s\<rparr>) h"
proof -
  let ?m = "holding (l\<lparr>lreader := (lreader l)\<lparr>rsrc := cs\<rparr>\<rparr>) s"
  have "ParseServerCommand l = ParseServerCommand ?m"
    using parse_refill [OF assms(1-4)] by (simp add: ParseServerCommand_def)
  then have "connection_step sc c h = connection_step sc (c\<lparr>clexer := ?m\<rparr>) h" for sc
    using assms(5) by (simp add: connection_step_def split: prod.splits go.splits outcome.splits)
  then show ?thesis using assms(6)
    by (simp add: handleConnection.simps [of sch i c h] handleConnection.simps [of sch i "_\<lparr>clexer := _\<rparr>" h])
qed

lemma handleConnection_ends:
  "host_ok h \<Longrightarrow> status c = Open \<Longrightarrow> status (fst (handleConnection sch i c h)) \<notin> {Open, CutOff}
   \<and> host_ok (snd (handleConnection sch i c h))"
proof (induction sch i c h rule: handleConnection.induct)
  case (1 sch i c h)
  obtain c1 h1 where step: "connection_step (\<lambda>j. sch (i + j)) c h = (c1, h1)" by fastforce
  have ok: "host_ok h1"
    using connection_step_host [of "\<lambda>j. sch (i + j)" c h] step 1(2) handle_depth_ok [OF 1(2)]
    by (auto simp: HandleCommand_def)
  have "status c1 \<noteq> CutOff"
    using step 1(2,3) HandleCommand_not_TooDeep [of h "\<lambda>j. sch (i + j)"]
    by (auto simp: connection_step_def host_ok_def split: prod.splits go.splits outcome.splits) (metis fst_conv)
  then show ?case using 1(1) [OF _ step [symmetric]] 1(3) step ok
    by (simp add: handleConnection.simps [of sch i c h])
qed

lemma pipelined_requests:
  assumes "list_all wire_request reqs" "length (wire_of reqs) \<le> bufsize" "reqs \<noteq> []"
    and "serve_all sch 0 connId (map request_of reqs) h = (map Reply rs, h')"
  shows "\<exists>c'. handleConnection sch 0 (new_connection connId [wire_of reqs] EOF) h = (c', h')
    \<and> written c' = concat rs \<and> status c' = Closed"
proof -
  let ?l = "new_lexer (new_reader [] EOF)" and ?c = "new_connection connId [wire_of reqs] EOF"
  have ne: "wire_of reqs \<noteq> []" using assms(3) by (cases reqs) auto
  have l: "(clexer ?c)\<lparr>lreader := (lreader (clexer ?c))\<lparr>rsrc := []\<rparr>\<rparr> = ?l"
    by (simp add: new_connection_def new_lexer_def new_reader_def)
  have "handleConnection sch 0 ?c h = handleConnection sch 0 (?c\<lparr>clexer := holding ?l (wire_of reqs)\<rparr>) h"
    using handleConnection_refill [of "clexer ?c" "wire_of reqs" "[]" ?c sch 0 h, unfolded l] assms(2) ne
    by (simp add: new_connection_def new_lexer_def new_reader_def)
  moreover have "\<exists>c'. handleConnection sch 0 (?c\<lparr>clexer := holding ?l (wire_of reqs)\<rparr>) h = (c', h')
      \<and> written c' = written (?c\<lparr>clexer := holding ?l (wire_of reqs)\<rparr>) @ concat rs \<and> status c' = Closed"
    by (rule handleConnection_wire [OF assms(1,2), of _ ?l])
       (simp_all add: new_connection_def new_lexer_def new_reader_def assms(4))
  ultimately show ?thesis by (simp add: new_connection_def)
qed

section \<open>Properties\<close>

text \<open>C8. Pipelining: a client that sends requests in one piece that fits the buffer and
  then closes gets exactly the answers the requests have one after the other, in order,
  and the shared state is the one they leave; then the connection is closed.\<close>

theorem pipelined_requests_answered:
  assumes "list_all wire_request reqs" "length (wire_of reqs) \<le> bufsize" "reqs \<noteq> []"
    and "serve_all sch 0 connId (map request_of reqs) h = (map Reply rs, h')"
  shows "\<exists>c'. handleConnection sch 0 (new_connection connId [wire_of reqs] EOF) h = (c', h')
    \<and> written c' = concat rs \<and> status c' = Closed"
  by (rule pipelined_requests [OF assms])

theorem pipelined_requests_answered_witness:
  "\<exists>c' h'. handleConnection still_env 0 (new_connection 7 [wire_of [[RespBulkString ''PING''], [RespBulkString ''ECHO'', RespBulkString ''hi'']]] EOF) fresh_host = (c', h')
    \<and> written c' = ''+PONG'' @ CRLF @ ''$2'' @ CRLF @ ''hi'' @ CRLF \<and> status c' = Closed"
proof -
  let ?reqs = "[[RespBulkString ''PING''], [RespBulkString ''ECHO'', RespBulkString ''hi'']]"
  have l: "to_lower ''PING'' = ''ping''" "to_lower ''ECHO'' = ''echo''" "itoa 2 = ''2''" "itoa 1 = ''1''" "itoa 4 = ''4''"
    by code_simp+
  have s: "serve_all still_env 0 7 (map request_of ?reqs) fresh_host
      = (map Reply [''+PONG'' @ CRLF, ''$2'' @ CRLF @ ''hi'' @ CRLF], fresh_host)"
    using fresh_host_ok by (simp add: HandleCommand_direct l dispatch_def HandlePing_def HandleEcho_def Let_def request_of_def)
  have "list_all wire_request ?reqs" by (simp add: wire_request_def)
  then show ?thesis using pipelined_requests_answered [OF _ _ _ s] l by auto
qed

text \<open>C28. Whatever bytes arrive on a connection and in whatever pieces, the loop ends, its
  effect on the shared state is that of some list of requests of this connection, and a
  well-formed state stays well formed.\<close>

theorem any_input_is_requests:
  assumes "host_ok h" "status c = Open" "handleConnection sch i c h = (c', h')"
  shows "(\<exists>reqs. snd (serve_all sch i (ident c) reqs h) = h') \<and> host_ok h' \<and> status c' \<in> {Closed, Crashed, Replica}"
proof -
  have "status c' \<notin> {Open, CutOff} \<and> host_ok h'" using handleConnection_ends [OF assms(1,2), of sch i] assms(3) by simp
  moreover have "\<exists>reqs. snd (serve_all sch i (ident c) reqs h) = h'" by (rule handleConnection_serves [OF assms(2,3)])
  ultimately show ?thesis by (cases "status c'") auto
qed

theorem any_input_is_requests_witness:
  "\<exists>c' h' reqs. handleConnection still_env 0 (new_connection 7 [''*1'', CRLF @ ''+x''] EOF) fresh_host = (c', h')
     \<and> snd (serve_all still_env 0 7 reqs fresh_host) = h' \<and> host_ok h' \<and> status c' \<in> {Closed, Crashed, Replica}"
proof -
  obtain c' h' where "handleConnection still_env 0 (new_connection 7 [''*1'', CRLF @ ''+x''] EOF) fresh_host = (c', h')"
    by fastforce
  with any_input_is_requests [OF fresh_host_ok(1) _ this] show ?thesis by (auto simp: new_connection_def)
qed

end
