(* ===== verification/Repl_Listener.thy ===== *)
theory Repl_Listener
  imports Connections
begin

text \<open>
  The follower's side of replication (\<open>startReplicationListener\<close> of
  redis-go/app/server.go): a loop that reads the leader's events as commands, runs them,
  answers only REPLCONF GETACK, and counts the bytes it has processed.

  \<open>replication_step\<close> is one turn; \<open>ids i\<close> is the UUID turn \<open>i\<close> draws. The loop of the code
  goes on after every error but the end of the input; \<open>replication_run\<close> would be \<open>None\<close> if it
  ran for ever, which \<open>listener_always_ends\<close> excludes.
\<close>

datatype turn = Continue | Stop | Died | Streams | Cut

record follower =
  flexer :: lexer
  fwritten :: string

text \<open>Whether the answer of a command goes back to the leader.\<close>

definition wants_answer :: "string \<Rightarrow> resp list \<Rightarrow> bool go" where
  "wants_answer name arr =
     (if to_lower name = ''replconf''
      then go_bind (bulk_at arr 1) (\<lambda>s. Ret (to_lower s = ''getack'')) else Ret False)"

definition replication_step ::
  "schedule \<Rightarrow> uuid \<Rightarrow> follower \<Rightarrow> host \<Rightarrow> turn \<times> follower \<times> host" where
  "replication_step sch connId f h =
     (let p = ProcessedBytes h in
      case ParseServerCommand (flexer f) of
        (Err e, l) \<Rightarrow> (if e = EOF then Stop else Continue, f\<lparr>flexer := l\<rparr>, h)
      | (Panic, l) \<Rightarrow> (Died, f\<lparr>flexer := l\<rparr>, h)
      | (Ret (name, arr), l) \<Rightarrow>
          (let f1 = f\<lparr>flexer := l\<rparr> in
           case HandleCommand sch \<lparr>ConnId = connId, RespArr = arr\<rparr> name h of
             (Fails err, h1) \<Rightarrow> (Continue, f1, h1)
           | (Crash, h1) \<Rightarrow> (Died, f1, h1)
           | (Streaming w, h1) \<Rightarrow> (Streams, f1\<lparr>fwritten := fwritten f @ w\<rparr>, h1)
           | (TooDeep, h1) \<Rightarrow> (Cut, f1, h1)
           | (Reply res, h1) \<Rightarrow>
               (case wants_answer name arr of
                  Ret w \<Rightarrow> (Continue, if w then f1\<lparr>fwritten := fwritten f @ res\<rparr> else f1,
                    AppendProcessedBytes (ByteCounter l - p) h1)
                | _ \<Rightarrow> (Died, f1, h1))))"

partial_function (option) replication_run ::
  "schedule \<Rightarrow> (nat \<Rightarrow> uuid) \<Rightarrow> nat \<Rightarrow> follower \<Rightarrow> host \<Rightarrow> (turn \<times> follower \<times> host) option" where
  "replication_run sch ids i f h =
     (case replication_step (\<lambda>j. sch (i + j)) (ids i) f h of (t, f1, h1) \<Rightarrow>
       if t = Continue then replication_run sch ids (i + 1) f1 h1 else Some (t, f1, h1))"

section \<open>What commands do to the byte count\<close>

lemma handlers_ProcessedBytes:
  "ProcessedBytes (snd (HandleConfig e args h)) = ProcessedBytes h"
  "ProcessedBytes (snd (HandleGet e args h)) = ProcessedBytes h"
  "ProcessedBytes (snd (HandleType e args h)) = ProcessedBytes h"
  "ProcessedBytes (snd (HandleSet e args h)) = ProcessedBytes h"
  "ProcessedBytes (snd (HandleIncr e args h)) = ProcessedBytes h"
  "ProcessedBytes (snd (HandleXAdd e args h)) = ProcessedBytes h"
  "ProcessedBytes (snd (HandleMulti ctx h)) = ProcessedBytes h"
  "ProcessedBytes (snd (HandleDiscard ctx h)) = ProcessedBytes h"
  by (auto simp: HandleConfig_def HandleGet_def HandleType_def HandleSet_def HandleIncr_def HandleMulti_def
      HandleDiscard_def HandleXAdd_def Let_def publish_def BeginTransaction_def ConsumeTransactionQueue_def
      with_ret_cases [where P = "\<lambda>x. ProcessedBytes (snd x) = ProcessedBytes h"]
      split: prod.splits option.splits go_value.splits go.splits)

lemma run_command_ProcessedBytes:
  assumes "\<And>sch ctx h. ProcessedBytes (snd (exec sch ctx h)) = ProcessedBytes h"
  shows "ProcessedBytes (snd (run_command exec sch ctx s h)) = ProcessedBytes h"
  using assms by (simp add: run_command_def dispatch_def Let_def readonly_handlers handlers_ProcessedBytes
      QueueCommand_def split: option.splits)

lemma exec_loop_ProcessedBytes:
  assumes "\<And>sch ctx s h. ProcessedBytes (snd (inner sch ctx s h)) = ProcessedBytes h"
  shows "ProcessedBytes (snd (exec_loop inner sch i queue result h)) = ProcessedBytes h"
proof (induction queue arbitrary: i result h)
  case (Cons c queue)
  show ?case using assms [of "\<lambda>j. sch (i + j)" "\<lparr>ConnId = 0, RespArr = qarr c\<rparr>" "qcommand c" h] Cons.IH
    by (auto split: prod.splits outcome.splits)
qed simp

lemma HandleCommand_ProcessedBytes: "ProcessedBytes (snd (HandleCommand sch ctx s h)) = ProcessedBytes h"
proof -
  have "ProcessedBytes (snd (HandleExec inner sch ctx h)) = ProcessedBytes h"
    if "\<And>sch ctx s h. ProcessedBytes (snd (inner sch ctx s h)) = ProcessedBytes h" for inner sch ctx h
    using exec_loop_ProcessedBytes [OF that]
    by (simp add: HandleExec_def ConsumeTransactionQueue_def split: prod.splits option.splits)
  moreover have "ProcessedBytes (snd (handle_depth 0 sch ctx s h)) = ProcessedBytes h" for sch ctx s h
    by (simp add: handle_depth.simps run_command_ProcessedBytes)
  ultimately show ?thesis
    by (simp add: HandleCommand_def handle_depth.simps run_command_ProcessedBytes)
qed

lemma run_continue:
  "replication_step (\<lambda>j. sch (i + j)) (ids i) f h = (Continue, f1, h1) \<Longrightarrow>
   replication_run sch ids i f h = replication_run sch ids (i + 1) f1 h1"
  by (simp add: replication_run.simps [of sch ids i f h])

lemma run_finish:
  "replication_step (\<lambda>j. sch (i + j)) (ids i) f h = (t, f1, h1) \<Longrightarrow> t \<noteq> Continue \<Longrightarrow>
   replication_run sch ids i f h = Some (t, f1, h1)"
  by (simp add: replication_run.simps [of sch ids i f h])

section \<open>Applying a list of events\<close>

text \<open>
  The specification of the loop on well-formed events: run each, and count up the bytes.
\<close>

fun apply_events ::
  "schedule \<Rightarrow> (nat \<Rightarrow> uuid) \<Rightarrow> nat \<Rightarrow> nat \<Rightarrow> resp list list \<Rightarrow> host \<Rightarrow> outcome list \<times> host" where
  "apply_events sch ids i n [] h = ([], h)"
| "apply_events sch ids i n (arr # es) h =
     (case HandleCommand (\<lambda>j. sch (i + j)) \<lparr>ConnId = ids i, RespArr = arr\<rparr> (fst (request_of arr)) h of (out, h1) \<Rightarrow>
       (let n1 = n + length (as_resp_string (RespArray arr)) in
        case apply_events sch ids (i + 1) n1 es (h1\<lparr>ProcessedBytes := int n1\<rparr>) of
          (outs, h2) \<Rightarrow> (out # outs, h2)))"

definition answers :: "resp list list \<Rightarrow> string list \<Rightarrow> string" where
  "answers es rs = concat (map snd (filter (\<lambda>(arr, r). wants_answer (fst (request_of arr)) arr = Ret True) (zip es rs)))"

text \<open>A handled REPLCONF has its word, so the listener finds it too.\<close>

lemma replconf_answer_total:
  assumes "TxQueue h (ConnId ctx) = None" "HandleCommand sch ctx name h = (Reply r, h1)"
  shows "\<exists>w. wants_answer name (RespArr ctx) = Ret w"
proof (cases "to_lower name = ''replconf''")
  case True
  then have "HandleReplconf (RespArr ctx) h = (Reply r, h1)"
    using assms by (simp add: HandleCommand_direct dispatch_def Let_def)
  then obtain s where "bulk_at (RespArr ctx) 1 = Ret s"
    by (cases "bulk_at (RespArr ctx) 1") (auto simp: HandleReplconf_def with_ret_def)
  with True show ?thesis by (simp add: wants_answer_def)
qed (auto simp: wants_answer_def)

lemma outside_transaction_TxQueue:
  assumes "HandleCommand ms ctx name h = (r, h1)" "TxQueue h (ConnId ctx) = None" "to_lower name \<noteq> ''multi''"
  shows "TxQueue h1 = TxQueue h"
proof (cases "to_lower name \<in> {''exec'', ''discard''}")
  case True
  then show ?thesis using assms
    by (auto simp: HandleCommand_direct dispatch_def HandleExec_def HandleDiscard_def IsInTransaction_def Let_def)
next
  case False
  then have "to_lower name \<notin> {''multi'', ''exec'', ''discard''}" using assms(3) by simp
  from dispatch_TxQueue [OF this, of _ ms ctx h] assms(1,2) show ?thesis
    by (simp add: HandleCommand_direct) (metis snd_conv)
qed

lemma replication_run_events:
  assumes "list_all wire_request es" "length (wire_of es) \<le> bufsize"
    and "flexer f = holding l (wire_of es)" "rsrc (lreader l) = []" "faults (lreader l) = []"
    and "\<forall>j. TxQueue h (ids j) = None" "ByteCounter l = int n" "n + length (wire_of es) < 9223372036854775808"
    and "apply_events sch ids i n es h = (map Reply rs, h')" "ProcessedBytes h = int n"
    and "\<forall>arr \<in> set es. to_lower (fst (request_of arr)) \<noteq> ''multi''"
  shows "\<exists>f'. replication_run sch ids i f h = Some (Stop, f', h') \<and> fwritten f' = fwritten f @ answers es rs"
  using assms
proof (induction es arbitrary: i f l h n rs)
  case Nil
  obtain r l1 where p: "ParseServerCommand (holding l []) = (r, l1)" by fastforce
  with ParseServerCommand_end [OF Nil(4,5)] have "r = Err EOF" by simp
  with p Nil(3) have "replication_step (\<lambda>j. sch (i + j)) (ids i) f h = (Stop, f\<lparr>flexer := l1\<rparr>, h)"
    by (simp add: replication_step_def)
  from run_finish [of sch i ids, OF this] show ?case using Nil(9) by (auto simp: answers_def)
next
  case (Cons arr es)
  let ?w = "as_resp_string (RespArray arr)"
  obtain name where req: "request_of arr = (name, arr)" by (simp add: request_of_def)
  have p: "ParseServerCommand (flexer f) = (Ret (name, arr), holding (counting (length ?w) l) (wire_of es))"
    using ParseServerCommand_wire [of arr l "wire_of es"] Cons.prems(1-3) req by (simp del: as_resp_string.simps)
  let ?n = "n + length ?w" and ?ctx = "\<lparr>ConnId = ids i, RespArr = arr\<rparr>"
  obtain r h1 rs1 where h: "HandleCommand (\<lambda>j. sch (i + j)) ?ctx name h = (Reply r, h1)"
    "apply_events sch ids (i + 1) ?n es (h1\<lparr>ProcessedBytes := int ?n\<rparr>) = (map Reply rs1, h')" "rs = r # rs1"
    using Cons.prems(9) req by (auto simp: Let_def split: prod.splits)
  obtain w where w: "wants_answer name arr = Ret w"
    using replconf_answer_total [of h ?ctx, OF _ h(1)] Cons.prems(6) by auto
  have b: "in_int64 (int ?n)" using Cons.prems(8) by (simp add: in_int64_def)
  have bytes: "ProcessedBytes h1 = int n"
    using HandleCommand_ProcessedBytes [of "\<lambda>j. sch (i + j)" ?ctx name h] h(1) Cons.prems(10) by simp
  have tx: "TxQueue h1 = TxQueue h"
    using outside_transaction_TxQueue [OF h(1)] Cons.prems(6,11) req by simp
  let ?f = "if w then f\<lparr>flexer := holding (counting (length ?w) l) (wire_of es), fwritten := fwritten f @ r\<rparr>
      else f\<lparr>flexer := holding (counting (length ?w) l) (wire_of es)\<rparr>"
  have step: "replication_step (\<lambda>j. sch (i + j)) (ids i) f h = (Continue, ?f, h1\<lparr>ProcessedBytes := int ?n\<rparr>)"
    using p h(1) w b bytes Cons.prems(7,10)
    by (simp add: replication_step_def Let_def AppendProcessedBytes_def wrap_int_id del: as_resp_string.simps)
  have "\<exists>f'. replication_run sch ids (i + 1) ?f (h1\<lparr>ProcessedBytes := int ?n\<rparr>) = Some (Stop, f', h')
      \<and> fwritten f' = fwritten ?f @ answers es rs1"
    using Cons.prems h(2) tx
    by (intro Cons.IH [where l = "counting (length ?w) l" and n = ?n]) (simp_all del: as_resp_string.simps)
  then show ?case using run_continue [of sch i ids, OF step] h(3) w req
    by (auto simp: answers_def)
qed

section \<open>REPLCONF GETACK\<close>

lemma apply_events_append:
  "apply_events sch ids i n (es @ fs) h = (case apply_events sch ids i n es h of (o1, h1) \<Rightarrow>
     (case apply_events sch ids (i + length es) (n + length (wire_of es)) fs h1 of (o2, h2) \<Rightarrow> (o1 @ o2, h2)))"
  by (induction es arbitrary: i n h) (auto simp: Let_def add.assoc split: prod.splits simp del: as_resp_string.simps)

lemma apply_events_frame:
  assumes "apply_events sch ids i n es h = (map Reply rs, h')" "\<forall>j. TxQueue h (ids j) = None"
    and "\<forall>arr \<in> set es. to_lower (fst (request_of arr)) \<notin> {''multi'', ''exec'', ''discard''}"
  shows "TxQueue h' = TxQueue h \<and> (ProcessedBytes h = int n \<longrightarrow> ProcessedBytes h' = int (n + length (wire_of es)))
    \<and> length rs = length es"
  using assms
proof (induction es arbitrary: i n h rs)
  case (Cons arr es)
  let ?ctx = "\<lparr>ConnId = ids i, RespArr = arr\<rparr>" and ?n = "n + length (as_resp_string (RespArray arr))"
  obtain r h1 rs1 where h: "HandleCommand (\<lambda>j. sch (i + j)) ?ctx (fst (request_of arr)) h = (Reply r, h1)"
    "apply_events sch ids (i + 1) ?n es (h1\<lparr>ProcessedBytes := int ?n\<rparr>) = (map Reply rs1, h')" "rs = r # rs1"
    using Cons.prems(1) by (auto simp: Let_def split: prod.splits)
  have "to_lower (fst (request_of arr)) \<notin> {''multi'', ''exec'', ''discard''}" using Cons.prems(3) by simp
  from dispatch_TxQueue [OF this, of _ "\<lambda>j. sch (i + j)" ?ctx h] h(1) Cons.prems(2)
  have tx: "TxQueue h1 = TxQueue h" by (simp add: HandleCommand_direct) (metis snd_conv)
  from Cons.IH [OF h(2)] Cons.prems(2,3) tx h(3) show ?case by (simp add: add.assoc del: as_resp_string.simps)
qed simp

definition getack_request :: "resp list" where
  "getack_request = map RespBulkString [''REPLCONF'', ''GETACK'', ''*'']"

lemma getack_request:
  "request_of getack_request = (''REPLCONF'', getack_request)" "wire_request getack_request"
  "to_lower ''REPLCONF'' = ''replconf''" "wants_answer ''REPLCONF'' getack_request = Ret True"
proof -
  have l: "to_lower ''REPLCONF'' = ''replconf''" "to_lower ''GETACK'' = ''getack''" by code_simp+
  show "request_of getack_request = (''REPLCONF'', getack_request)" "wire_request getack_request"
    "to_lower ''REPLCONF'' = ''replconf''" "wants_answer ''REPLCONF'' getack_request = Ret True"
    using l by (simp_all add: getack_request_def request_of_def wire_request_def wants_answer_def bulk_at_def)
qed

lemma getack_reply:
  assumes "TxQueue h c = None"
  shows "HandleCommand sch \<lparr>ConnId = c, RespArr = getack_request\<rparr> ''REPLCONF'' h = (reply (ack_response (ProcessedBytes h)), h)"
proof -
  have l: "to_lower ''REPLCONF'' = ''replconf''" "to_lower ''GETACK'' = ''getack''" by code_simp+
  show ?thesis using assms
    by (simp add: HandleCommand_direct dispatch_def HandleReplconf_def getack_request_def l with_ret_def bulk_at_def Let_def)
qed

text \<open>The listener on a reader that holds the events already.\<close>

definition new_follower :: "reader \<Rightarrow> follower" where
  "new_follower r = \<lparr>flexer = new_lexer r, fwritten = []\<rparr>"

lemma run_new_follower:
  assumes "list_all wire_request es" "length (wire_of es) \<le> bufsize"
    and "rbuf r = wire_of es" "rsrc r = []" "faults r = []"
    and "\<forall>j. TxQueue h (ids j) = None" "ProcessedBytes h = 0"
    and "\<forall>arr \<in> set es. to_lower (fst (request_of arr)) \<noteq> ''multi''"
    and "apply_events sch ids 0 0 es h = (map Reply rs, h')"
  shows "\<exists>f'. replication_run sch ids 0 (new_follower r) h = Some (Stop, f', h') \<and> fwritten f' = answers es rs"
proof -
  have "flexer (new_follower r) = holding (new_lexer r) (wire_of es)"
    using assms(3) by (simp add: new_follower_def holding_self new_lexer_def)
  from replication_run_events [OF assms(1,2) this, of h ids 0 sch 0 rs h'] assms show ?thesis
    by (simp add: new_lexer_def new_follower_def)
qed

definition buffered :: "string \<Rightarrow> reader" where
  "buffered s = \<lparr>rbuf = s, rsrc = [], rerrs = []\<rparr>"

section \<open>The loop ends\<close>

text \<open>Every turn that goes on has taken a byte or an error off what is still to be read.\<close>

lemma replication_step_remaining:
  assumes "replication_step sch c f h = (Continue, f1, h1)"
  shows "remaining (lreader (flexer f1)) < remaining (lreader (flexer f))"
proof -
  obtain r l where p: "ParseServerCommand (flexer f) = (r, l)" by fastforce
  then have "r \<noteq> Err EOF" "flexer f1 = l" using assms
    by (auto simp: replication_step_def Let_def split: go.splits prod.splits outcome.splits if_splits)
  with ParseServerCommand_remaining [OF p] show ?thesis by simp
qed

text \<open>Nothing but errors to come: the turn reports one of them, or stops.\<close>

lemma replication_step_nothing_left:
  assumes "lpending (flexer f) = []"
  shows "\<exists>l. lpending l = [] \<and> replication_step sch c f h
    = (if faults (lreader (flexer f)) = [] then Stop else Continue, f\<lparr>flexer := l\<rparr>, h)"
proof -
  let ?e = "rerr (lreader (flexer f))"
  obtain r where r: "read_byte (lreader (flexer f)) = (Err ?e, r)" "pending r = []"
    using bufio.rbyte_end [OF assms] by blast
  then have "next_token (flexer f) = (Err ?e, (flexer f)\<lparr>lreader := r, ByteCounter := ByteCounter (flexer f) + 1\<rparr>)"
    by (simp add: next_token_def)
  then have "ParseServerCommand (flexer f) = (Err (if ?e = EOF then EOF else
      Wrapped ''error couldnt parse: '' (Wrapped ''unable to parse next token '' ?e)),
      (flexer f)\<lparr>lreader := r, ByteCounter := ByteCounter (flexer f) + 1\<rparr>)"
    by (simp add: ParseServerCommand_def parse.simps [of "flexer f"])
  with r(2) rerr_EOF [of "lreader (flexer f)"] show ?thesis
    by (intro exI [of _ "(flexer f)\<lparr>lreader := r, ByteCounter := ByteCounter (flexer f) + 1\<rparr>"])
       (auto simp: replication_step_def)
qed

section \<open>A replica follows its leader\<close>

text \<open>Writes without an expiry: what the leader publishes, apart from deadlines.\<close>

definition plain_write :: "resp list \<Rightarrow> bool" where
  "plain_write arr \<longleftrightarrow> wire_request arr \<and> length arr \<le> 3
     \<and> to_lower (fst (request_of arr)) \<in> {''set'', ''incr''}"

text \<open>Without expiries a write depends on the stored values only, not on the clock.\<close>

lemma kv_get_no_expiry: "expiries k = Map.empty \<Longrightarrow> kv_get ms key k = ((kvalues k key, kvalues k key \<noteq> None), k)"
  by (simp add: kv_get_def)

lemma kv_set_no_expiry: "kv_set ms key v 0 k = k\<lparr>kvalues := (kvalues k)(key \<mapsto> v)\<rparr>"
  by (simp add: kv_set_def)

definition written_store :: "resp list \<Rightarrow> kv_store \<Rightarrow> (kv_store \<times> bool) go" where
  "written_store arr k =
     (if to_lower (fst (request_of arr)) = ''set'' then
        go_bind (bulk_at arr 1) (\<lambda>key. go_bind (bulk_at arr 2) (\<lambda>val.
          Ret (k\<lparr>kvalues := (kvalues k)(key \<mapsto> VString val)\<rparr>, True)))
      else go_bind (bulk_at arr 1) (\<lambda>key.
        case kvalues k key of
          None \<Rightarrow> Ret (k\<lparr>kvalues := (kvalues k)(key \<mapsto> VString (itoa 1))\<rparr>, True)
        | Some (VString v) \<Rightarrow>
            (case atoi v of
               (_, Some _) \<Rightarrow> Ret (k, False)
             | (n, None) \<Rightarrow> Ret (k\<lparr>kvalues := (kvalues k)(key \<mapsto> VString (itoa (wrap_int (n + 1))))\<rparr>, True))
        | Some _ \<Rightarrow> Err EOF))"

lemma plain_write_step:
  assumes "plain_write arr" "TxQueue h (ConnId ctx) = None" "RespArr ctx = arr" "expiries (Store h) = Map.empty"
    and "HandleCommand sch ctx (fst (request_of arr)) h = (Reply r, h1)"
  obtains p where "written_store arr (Store h) = Ret (Store h1, p)" "TxQueue h1 = TxQueue h"
    "expiries (Store h1) = Map.empty" "Published h1 = Published h @ (if p then [as_resp_string (RespArray arr)] else [])"
proof -
  have x: "set_expiry arr = Ret 0" using assms(1) by (simp add: set_expiry_def plain_write_def)
  note HandleCommand_direct [OF assms(2), simp] kv_get_no_expiry [OF assms(4), simp] kv_set_no_expiry [simp]
  consider (set) "to_lower (fst (request_of arr)) = ''set''" | (incr) "to_lower (fst (request_of arr)) = ''incr''"
    using assms(1) by (auto simp: plain_write_def)
  then show thesis
  proof cases
    case set
    then have "HandleSet (sch 0) arr h = (Reply r, h1)" using assms(3,5) by (simp add: dispatch_def Let_def)
    with set x assms(4) show thesis
      by (intro that [of True]; cases "bulk_at arr 1"; cases "bulk_at arr 2")
         (auto simp: HandleSet_def written_store_def with_ret_def publish_def)
  next
    case incr
    then have i: "HandleIncr (sch 0) arr h = (Reply r, h1)" using assms(3,5) by (simp add: dispatch_def Let_def)
    then obtain key where k: "bulk_at arr 1 = Ret key" by (cases "bulk_at arr 1") (auto simp: HandleIncr_def with_ret_def)
    show thesis
    proof (cases "kvalues (Store h) key")
      case None
      with i incr k assms(4) show thesis
        by (intro that [of True]) (auto simp: HandleIncr_def written_store_def with_ret_def publish_def Let_def)
    next
      case (Some v)
      with i k obtain s where v: "v = VString s" by (cases v) (auto simp: HandleIncr_def with_ret_def Let_def)
      obtain n e where "atoi s = (n, e)" by fastforce
      with i incr k assms(4) Some v show thesis
        by (intro that [of "e = None"]; cases e) (auto simp: HandleIncr_def written_store_def with_ret_def publish_def Let_def)
    qed
  qed
qed

lemma written_store_unpublished: "written_store arr k = Ret (s, False) \<Longrightarrow> s = k"
  by (cases "bulk_at arr 1"; cases "bulk_at arr 2")
     (auto simp: written_store_def split: if_splits option.splits go_value.splits prod.splits)

text \<open>The same write is accepted wherever the same values are stored.\<close>

lemma plain_write_accepted:
  assumes "plain_write arr" "TxQueue g (ConnId ctx) = None" "RespArr ctx = arr" "expiries (Store g) = Map.empty"
    and "written_store arr (Store g) = Ret (s, p)"
  shows "\<exists>r g1. HandleCommand sch ctx (fst (request_of arr)) g = (Reply r, g1) \<and> Store g1 = s"
proof -
  have x: "set_expiry arr = Ret 0" using assms(1) by (simp add: set_expiry_def plain_write_def)
  note HandleCommand_direct [OF assms(2), simp] kv_get_no_expiry [OF assms(4), simp] kv_set_no_expiry [simp]
  consider (set) "to_lower (fst (request_of arr)) = ''set''" | (incr) "to_lower (fst (request_of arr)) = ''incr''"
    using assms(1) by (auto simp: plain_write_def)
  then show ?thesis
  proof cases
    case set
    with assms x show ?thesis
      by (auto simp: dispatch_def Let_def HandleSet_def written_store_def with_ret_def publish_def)
  next
    case incr
    then obtain key where k: "bulk_at arr 1 = Ret key" using assms(5) by (auto simp: written_store_def)
    with incr assms show ?thesis
      by (auto simp: dispatch_def Let_def HandleIncr_def written_store_def with_ret_def publish_def
          split: option.splits go_value.splits prod.splits)
  qed
qed

text \<open>What the leader published, the follower can apply, and it gets the leader's store.\<close>

lemma leader_events:
  assumes "list_all plain_write reqs" "TxQueue h c = None" "expiries (Store h) = Map.empty"
    and "serve_all sch i c (map request_of reqs) h = (map Reply rs, h')"
  shows "\<exists>es. set es \<subseteq> set reqs \<and> Published h' = Published h @ map (\<lambda>arr. as_resp_string (RespArray arr)) es
    \<and> (\<forall>g j n. Store g = Store h \<and> (\<forall>j. TxQueue g (ids j) = None) \<longrightarrow>
        (\<exists>rs' g'. apply_events sch' ids j n es g = (map Reply rs', g') \<and> Store g' = Store h'))"
  using assms
proof (induction reqs arbitrary: i h rs)
  case Nil
  then show ?case by (intro exI [of _ "[]"]) auto
next
  case (Cons arr reqs)
  let ?ctx = "\<lparr>ConnId = c, RespArr = arr\<rparr>"
  have w: "plain_write arr" "list_all plain_write reqs" using Cons.prems(1) by simp_all
  obtain name where req: "request_of arr = (name, arr)" by (simp add: request_of_def)
  obtain r h1 rs1 where h: "HandleCommand (\<lambda>j. sch (i + j)) ?ctx (fst (request_of arr)) h = (Reply r, h1)"
    "serve_all sch (i + 1) c (map request_of reqs) h1 = (map Reply rs1, h')"
    using Cons.prems(4) req by (auto split: prod.splits)
  obtain p where p: "written_store arr (Store h) = Ret (Store h1, p)" "TxQueue h1 = TxQueue h"
    "expiries (Store h1) = Map.empty" "Published h1 = Published h @ (if p then [as_resp_string (RespArray arr)] else [])"
    using plain_write_step [OF w(1) _ _ Cons.prems(3) h(1)] Cons.prems(2) by auto
  obtain es where es: "set es \<subseteq> set reqs" "Published h' = Published h1 @ map (\<lambda>arr. as_resp_string (RespArray arr)) es"
    "\<And>g j n. Store g = Store h1 \<Longrightarrow> \<forall>j. TxQueue g (ids j) = None \<Longrightarrow>
        \<exists>rs' g'. apply_events sch' ids j n es g = (map Reply rs', g') \<and> Store g' = Store h'"
    using Cons.IH [OF w(2) _ p(3) h(2)] p(2) Cons.prems(2) by auto
  show ?case
  proof (cases p)
    case False
    with p(1) have "Store h1 = Store h" using written_store_unpublished by auto
    with False es p(4) show ?thesis by (intro exI [of _ es]) auto
  next
    case True
    have "\<exists>rs' g'. apply_events sch' ids j n (arr # es) g = (map Reply rs', g') \<and> Store g' = Store h'"
      if g: "Store g = Store h" "\<forall>j. TxQueue g (ids j) = None" for g j n
    proof -
      let ?n = "n + length (as_resp_string (RespArray arr))" and ?ctx' = "\<lparr>ConnId = ids j, RespArr = arr\<rparr>"
      obtain r1 g1 where g1: "HandleCommand (\<lambda>k. sch' (j + k)) ?ctx' (fst (request_of arr)) g = (Reply r1, g1)" "Store g1 = Store h1"
        using plain_write_accepted [OF w(1), of g ?ctx'] g p(1) Cons.prems(3) by fastforce
      have "TxQueue g1 = TxQueue g"
        using plain_write_step [OF w(1) _ _ _ g1(1)] g Cons.prems(3) by auto
      with es(3) [of "g1\<lparr>ProcessedBytes := int ?n\<rparr>" "j + 1" ?n] g1 g obtain rs' g' where
        "apply_events sch' ids (j + 1) ?n es (g1\<lparr>ProcessedBytes := int ?n\<rparr>) = (map Reply rs', g')" "Store g' = Store h'"
        by auto
      then show ?thesis using g1(1) by (intro exI [of _ "r1 # rs'"] exI [of _ g']) (simp add: Let_def del: as_resp_string.simps)
    qed
    with True es(1,2) p(4) show ?thesis by (intro exI [of _ "arr # es"]) auto
  qed
qed

text \<open>An array whose last element is the null bulk string never parses.\<close>

lemma fst_eq_Panic: "fst x = Panic \<longleftrightarrow> (\<exists>l. x = (Panic, l))"
  by (cases x) auto

lemma parse_elems_null:
  assumes "\<And>v l t. v \<in> set vs \<Longrightarrow>
      parse (holding l (as_resp_string v @ t)) = (Ret v, holding (counting (length (as_resp_string v)) l) t)"
    and "\<And>l t. fst (parse (holding l (''$-1'' @ CRLF @ t))) = Panic"
  shows "fst (parse_elems (length vs + 1) (holding l (concat (map as_resp_string vs) @ ''$-1'' @ CRLF @ t))) = Panic"
  using assms(1)
proof (induction vs arbitrary: l)
  case Nil
  show ?case using assms(2) [of l t]
    by (auto simp: parse_elems.simps [of "Suc 0"] fst_eq_Panic)
next
  case (Cons v vs)
  from Cons.IH [of "counting (length (as_resp_string v)) l"] Cons.prems show ?case
    by (auto simp: parse_elems.simps [of "Suc (Suc (length vs))"] fst_eq_Panic)
qed

lemma parse_array_null:
  assumes "list_all wire_ok vs" "length (as_resp_string (RespArray (vs @ [RespBulkString []]))) \<le> bufsize"
  shows "fst (parse (holding l (as_resp_string (RespArray (vs @ [RespBulkString []]))))) = Panic"
proof -
  let ?n = "itoa (int (length vs + 1))" and ?c = "concat (map as_resp_string vs)"
  have len: "length vs + 1 \<le> 4096"
    using assms(2) length_elements_le [of "vs @ [RespBulkString []]"] by simp
  have fits: "length (as_resp_string v) \<le> length ?c" if "v \<in> set vs" for v using that by (induction vs) auto
  have "parse (holding m (as_resp_string v @ u)) = (Ret v, holding (counting (length (as_resp_string v)) m) u)"
    if "v \<in> set vs" for v m u
    using assms that fits [OF that] by (intro parse_wire) (auto simp: list_all_iff)
  note elems = parse_elems_null [OF this parse_null_bulk, of vs _ "[]"]
  have "fst (parse_array \<lparr>ttype = TokenArray, tvalue = ?n\<rparr> (holding m (?c @ ''$-1'' @ CRLF))) = Panic" for m
  proof -
    obtain l1 where "parse_elems (length vs + 1) (holding m (?c @ ''$-1'' @ CRLF)) = (Panic, l1)"
      using elems [of m] by (auto simp: fst_eq_Panic)
    then show ?thesis using len in_int64_length [of "length vs + 1"]
      by (simp add: parse_array.simps make_ok_def nat_add_distrib)
  qed
  then show ?thesis
    using line_token_holding [of ?n TokenArray "counting 1 l" "?c @ ''$-1'' @ CRLF"]
    by (simp add: parse.simps [of "holding l _"] next_token_holding)
qed

definition incr_request :: "resp list" where
  "incr_request = [RespBulkString ''INCR'', RespBulkString ''k'']"

lemma incr_request:
  "list_all plain_write [incr_request]" "length (as_resp_string (RespArray incr_request)) = 21"
proof -
  have "to_lower ''INCR'' = ''incr''" "itoa 2 = ''2''" "itoa 4 = ''4''" "itoa 1 = ''1''" by code_simp+
  then show "list_all plain_write [incr_request]" "length (as_resp_string (RespArray incr_request)) = 21"
    by (simp_all add: incr_request_def plain_write_def wire_request_def request_of_def)
qed

lemma incr_new_key:
  assumes "TxQueue h c = None" "Store h = new_kv_store" "Published h = []"
  shows "\<exists>h'. serve_all sch i c (map request_of [incr_request]) h = (map Reply ['':1'' @ CRLF], h')
    \<and> Published h' = [as_resp_string (RespArray incr_request)] \<and> kvalues (Store h') ''k'' = Some (VString ''1'')"
proof -
  have "to_lower ''INCR'' = ''incr''" "itoa 1 = ''1''" by code_simp+
  then show ?thesis using assms
    by (auto simp: incr_request_def request_of_def HandleCommand_direct dispatch_def HandleIncr_def with_ret_def
        bulk_at_def Let_def kv_get_def new_kv_store_def kv_set_def publish_def)
qed

section \<open>Properties\<close>

text \<open>C29. GETACK: when the leader's stream is commands that are not GETACK, all accepted,
  followed by one REPLCONF GETACK, the listener runs them in order, writes exactly one
  answer to the leader, whose offset is the number of bytes of the events before it, and
  afterwards counts every byte of the stream as processed.\<close>

theorem getack_reports_bytes_before:
  assumes "list_all wire_request es" "length (wire_of (es @ [getack_request])) \<le> bufsize"
    and "rbuf r = wire_of (es @ [getack_request])" "rsrc r = []" "faults r = []"
    and "\<forall>j. TxQueue h (ids j) = None" "ProcessedBytes h = 0"
    and "\<forall>arr \<in> set es. to_lower (fst (request_of arr)) \<notin> {''multi'', ''exec'', ''discard'', ''replconf''}"
    and "apply_events sch ids 0 0 es h = (map Reply rs, h1)"
  shows "\<exists>f' h'. replication_run sch ids 0 (new_follower r) h = Some (Stop, f', h') \<and> Store h' = Store h1
    \<and> fwritten f' = as_resp_string (ack_response (int (length (wire_of es))))
    \<and> ProcessedBytes h' = int (length (wire_of (es @ [getack_request])))"
proof -
  let ?n = "length (wire_of (es @ [getack_request]))" and ?h' = "h1\<lparr>ProcessedBytes := int (length (wire_of (es @ [getack_request])))\<rparr>"
  have fr: "TxQueue h1 = TxQueue h" "ProcessedBytes h1 = int (length (wire_of es))" "length rs = length es"
    using apply_events_frame [OF assms(9,6)] assms(7,8) by auto
  let ?ack = "as_resp_string (ack_response (int (length (wire_of es))))"
  have ap: "apply_events sch ids 0 0 (es @ [getack_request]) h = (map Reply (rs @ [?ack]), ?h')"
    using assms(6,9) fr getack_reply [of h1 "ids (length es)"]
    by (simp add: apply_events_append getack_request Let_def del: as_resp_string.simps)
  have "answers (es @ [getack_request]) (rs @ [?ack]) = ?ack"
  proof -
    have "filter (\<lambda>(arr, r). wants_answer (fst (request_of arr)) arr = Ret True) (zip es rs) = []"
      using assms(8) by (auto simp: filter_empty_conv wants_answer_def dest: set_zip_leftD)
    then show ?thesis using fr(3) by (simp add: answers_def getack_request del: as_resp_string.simps)
  qed
  moreover have "to_lower ''REPLCONF'' \<noteq> ''multi''" by (simp add: getack_request)
  ultimately show ?thesis
    using run_new_follower [OF _ assms(2-7) _ ap] assms(1,8) by (auto simp: getack_request)
qed

theorem getack_reports_bytes_before_witness:
  "\<exists>f' h'. replication_run still_env (\<lambda>_. 9) 0
      (new_follower (buffered (wire_of [map RespBulkString [''PING''], getack_request]))) fresh_host = Some (Stop, f', h')
    \<and> fwritten f' = as_resp_string (ack_response 14)"
proof -
  let ?ping = "[RespBulkString ''PING'']"
  have l: "to_lower ''PING'' = ''ping''" and n: "itoa 1 = ''1''" "itoa 3 = ''3''" "itoa 4 = ''4''" "itoa 8 = ''8''" "itoa 6 = ''6''"
    by code_simp+
  have pb: "ProcessedBytes fresh_host = 0" by (simp add: fresh_host_def init_host_def)
  have len: "length (as_resp_string (RespArray ?ping)) = 14" using n by simp
  have "apply_events still_env (\<lambda>_. 9) 0 0 [?ping] fresh_host = (map Reply [''+PONG'' @ CRLF], fresh_host\<lparr>ProcessedBytes := 14\<rparr>)"
    using fresh_host_ok len
    by (simp add: request_of_def HandleCommand_direct l dispatch_def HandlePing_def Let_def del: as_resp_string.simps)
  moreover have "length (wire_of ([?ping] @ [getack_request])) \<le> bufsize" using n by (simp add: getack_request_def)
  moreover have "list_all wire_request [?ping]" by (simp add: wire_request_def)
  ultimately show ?thesis
    using getack_reports_bytes_before [of "[?ping]" "buffered (wire_of ([?ping] @ [getack_request]))" fresh_host "\<lambda>_. 9"]
      fresh_host_ok pb l len
    by (fastforce simp: buffered_def request_of_def simp del: as_resp_string.simps)
qed

lemma replica_follows:
  assumes "list_all plain_write reqs" "TxQueue h c = None" "expiries (Store h) = Map.empty" "Published h = []"
    and "serve_all sch 0 c (map request_of reqs) h = (map Reply rs, h')"
    and "Store g = Store h" "\<forall>j. TxQueue g (ids j) = None" "ProcessedBytes g = 0"
    and "rbuf r = concat (Published h')" "rsrc r = []" "faults r = []" "length (concat (Published h')) \<le> bufsize"
  shows "\<exists>f' g'. replication_run sch' ids 0 (new_follower r) g = Some (Stop, f', g') \<and> Store g' = Store h'"
proof -
  obtain es where es: "set es \<subseteq> set reqs" "Published h' = map (\<lambda>arr. as_resp_string (RespArray arr)) es"
    "\<exists>rs' g'. apply_events sch' ids 0 0 es g = (map Reply rs', g') \<and> Store g' = Store h'"
    using leader_events [OF assms(1-3,5), of ids sch'] assms(4,6,7) by (auto simp del: as_resp_string.simps)
  then obtain rs' g' where g': "apply_events sch' ids 0 0 es g = (map Reply rs', g')" "Store g' = Store h'" by blast
  have "plain_write arr" if "arr \<in> set es" for arr using es(1) assms(1) that by (auto simp: list_all_iff)
  then have "list_all wire_request es" "\<forall>arr \<in> set es. to_lower (fst (request_of arr)) \<noteq> ''multi''"
    by (fastforce simp: list_all_iff plain_write_def)+
  with run_new_follower [OF _ _ _ assms(10,11,7,8) _ g'(1)] g'(2) assms(9,12) es(2) show ?thesis by auto
qed

text \<open>Convergence: a leader runs SETs without expiry and INCRs, all answered; a follower
  that starts from the same values and whose listener receives what the leader published
  ends with exactly the leader's store, whatever its clock.\<close>

theorem replica_converges:
  assumes "list_all plain_write reqs" "TxQueue h c = None" "expiries (Store h) = Map.empty" "Published h = []"
    and "serve_all sch 0 c (map request_of reqs) h = (map Reply rs, h')"
    and "Store g = Store h" "\<forall>j. TxQueue g (ids j) = None" "ProcessedBytes g = 0"
    and "rbuf r = concat (Published h')" "rsrc r = []" "faults r = []" "length (concat (Published h')) \<le> bufsize"
  shows "\<exists>f' g'. replication_run sch' ids 0 (new_follower r) g = Some (Stop, f', g') \<and> Store g' = Store h'"
  by (rule replica_follows [OF assms])

theorem replica_converges_witness:
  "\<exists>h' f' g'. snd (serve_all still_env 0 7 (map request_of [incr_request]) fresh_host) = h'
    \<and> kvalues (Store h') ''k'' = Some (VString ''1'')
    \<and> replication_run still_env (\<lambda>_. 9) 0 (new_follower (buffered (concat (Published h')))) fresh_host = Some (Stop, f', g')
    \<and> Store g' = Store h'"
proof -
  have new: "Published fresh_host = []" "Store fresh_host = new_kv_store" "ProcessedBytes fresh_host = 0"
    by (simp_all add: fresh_host_def init_host_def)
  obtain h' where h': "serve_all still_env 0 7 (map request_of [incr_request]) fresh_host = (map Reply ['':1'' @ CRLF], h')"
    "Published h' = [as_resp_string (RespArray incr_request)]" "kvalues (Store h') ''k'' = Some (VString ''1'')"
    using incr_new_key [of fresh_host 7 still_env 0] fresh_host_ok new by auto
  have e: "expiries (Store fresh_host) = Map.empty" by (simp add: new new_kv_store_def)
  have "\<exists>f' g'. replication_run still_env (\<lambda>_. 9) 0 (new_follower (buffered (concat (Published h')))) fresh_host
      = Some (Stop, f', g') \<and> Store g' = Store h'"
    using incr_request by (intro replica_converges [OF _ fresh_host_ok(2) e new(1) h'(1) refl _ new(3)])
       (auto simp: fresh_host_ok buffered_def h'(2))
  with h' show ?thesis by (auto simp del: as_resp_string.simps)
qed

text \<open>C37. A SET of an empty value is answered OK and published, and the event it publishes
  crashes every follower whose listener reads it.\<close>

theorem empty_value_crashes_replica:
  assumes "TxQueue h c = None" "Published h = []" "key \<noteq> []"
    and "arr = [RespBulkString ''SET'', RespBulkString key, RespBulkString []]"
    and "length (as_resp_string (RespArray arr)) \<le> bufsize"
    and "rbuf r = as_resp_string (RespArray arr)"
  shows "\<exists>h'. HandleCommand sch \<lparr>ConnId = c, RespArr = arr\<rparr> ''SET'' h = (reply (RespSimpleString ''OK''), h')
    \<and> Published h' = [rbuf r] \<and> (\<exists>f'. replication_run sch' ids 0 (new_follower r) g = Some (Died, f', g))"
proof -
  have l: "to_lower ''SET'' = ''set''" by code_simp
  have x: "set_expiry arr = Ret 0" by (simp add: assms(4) set_expiry_def)
  have b: "bulk_at arr 1 = Ret key" "bulk_at arr 2 = Ret []"
    by (simp_all add: assms(4) bulk_at_def numeral_2_eq_2)
  have leader: "HandleCommand sch \<lparr>ConnId = c, RespArr = arr\<rparr> ''SET'' h = (reply (RespSimpleString ''OK''),
      publish (rbuf r) (h\<lparr>Store := kv_set (now (sch 0)) key (VString []) 0 (Store h)\<rparr>))"
    using assms(1,6) b x by (simp add: HandleCommand_direct l dispatch_def HandleSet_def Let_def with_ret_def)
  have "flexer (new_follower r) = holding (new_lexer r) (as_resp_string (RespArray arr))"
    using assms(6) by (simp add: new_follower_def holding_self new_lexer_def)
  moreover have "fst (parse (holding (new_lexer r) (as_resp_string (RespArray arr)))) = Panic"
    using parse_array_null [of "[RespBulkString ''SET'', RespBulkString key]" "new_lexer r"] assms(3-5) by simp
  ultimately obtain l1 where "parse (flexer (new_follower r)) = (Panic, l1)" by (metis prod.collapse)
  then have "replication_step (\<lambda>j. sch' (0 + j)) (ids 0) (new_follower r) g = (Died, (new_follower r)\<lparr>flexer := l1\<rparr>, g)"
    by (simp add: replication_step_def ParseServerCommand_def)
  from run_finish [of sch' 0 ids, OF this] leader assms(2) show ?thesis by (auto simp: publish_def)
qed

theorem empty_value_crashes_replica_witness:
  "\<exists>h' f'. HandleCommand still_env \<lparr>ConnId = 7, RespArr = map RespBulkString [''SET'', ''k'', []]\<rparr> ''SET'' fresh_host
      = (reply (RespSimpleString ''OK''), h')
    \<and> replication_run still_env (\<lambda>_. 7) 0 (new_follower (buffered (hd (Published h')))) fresh_host = Some (Died, f', fresh_host)"
proof -
  let ?arr = "[RespBulkString ''SET'', RespBulkString ''k'', RespBulkString []]"
  have "itoa 3 = ''3''" "itoa 1 = ''1''" by code_simp+
  then have "length (as_resp_string (RespArray ?arr)) \<le> bufsize" by simp
  moreover have "Published fresh_host = []" by (simp add: fresh_host_def init_host_def)
  ultimately show ?thesis
    using empty_value_crashes_replica [OF fresh_host_ok(2), of "''k''" ?arr "buffered (as_resp_string (RespArray ?arr))"
        still_env 7 still_env "\<lambda>_. 7" fresh_host]
    by (auto simp: buffered_def simp del: as_resp_string.simps)
qed

text \<open>C36. The listener's loop ends, a command taken as one step: it goes on after every error but the
  end of the input, yet whatever bytes the leader sends before its connection ends, in whatever
  pieces, and whatever errors the connection reports before that, finitely many turns lead to
  one that leaves the loop: at the end of the input, or because a command or the parser ended
  the process or the leader asked for PSYNC. When nothing is left to be read but errors, such
  as the reset of the connection, the loop stops at the end of the input, with the shared
  state as it was and nothing written.\<close>

theorem listener_always_ends:
  "\<exists>t f' h'. replication_run sch ids i f h = Some (t, f', h') \<and> t \<noteq> Continue
    \<and> (lpending (flexer f) = [] \<longrightarrow> t = Stop \<and> h' = h \<and> fwritten f' = fwritten f)"
proof (induction "remaining (lreader (flexer f))" arbitrary: i f h rule: less_induct)
  case less
  obtain t f1 h1 where s: "replication_step (\<lambda>j. sch (i + j)) (ids i) f h = (t, f1, h1)" by (metis prod_cases3)
  have left: "lpending (flexer f) = [] \<Longrightarrow> lpending (flexer f1) = [] \<and> t \<in> {Stop, Continue} \<and> h1 = h \<and> fwritten f1 = fwritten f"
    using replication_step_nothing_left [of f "\<lambda>j. sch (i + j)" "ids i" h] s by (auto split: if_splits)
  show ?case
  proof (cases "t = Continue")
    case True
    from less [OF replication_step_remaining [OF s [unfolded True]], of "i + 1" h1] run_continue [of sch i ids, OF s [unfolded True]]
      left show ?thesis by auto
  next
    case False
    with run_finish [of sch i ids, OF s] left show ?thesis by auto
  qed
qed

theorem listener_always_ends_witness:
  "\<exists>f'. replication_run still_env (\<lambda>_. 7) 0 (new_follower (new_reader [] (IOError ''connection reset by peer''))) fresh_host
    = Some (Stop, f', fresh_host)"
  using listener_always_ends [of still_env "\<lambda>_. 7" 0 "new_follower (new_reader [] (IOError ''connection reset by peer''))" fresh_host]
  by (auto simp: new_follower_def new_lexer_def new_reader_def pending_def)

end
