(* ===== verification/Rdb_File.thy ===== *)
theory Rdb_File
  imports Bufio Strconv
begin

text \<open>
  The reader of RDB files (redis-go/app/rdb/rdb.go: \<open>ReadRdbFromFile\<close> and the value
  readers it calls). An \<open>io\<close> action takes the buffered reader and returns its result with
  the reader after it. The loop over the sections is \<open>read_sections\<close>; it ends because
  each section takes at least its separator byte off the file.
\<close>

named_theorems io_shrinks \<open>actions that put no bytes back\<close>

named_theorems rdb_simps \<open>reader actions on buffered bytes\<close>

section \<open>Reader actions\<close>

type_synonym 'a io = "reader \<Rightarrow> 'a go \<times> reader"

definition io_ret :: "'a \<Rightarrow> 'a io" where
  "io_ret a = (\<lambda>r. (Ret a, r))"

definition io_err :: "go_error \<Rightarrow> 'a io" where
  "io_err e = (\<lambda>r. (Err e, r))"

definition io_bind :: "'a io \<Rightarrow> ('a \<Rightarrow> 'b io) \<Rightarrow> 'b io" where
  "io_bind m f = (\<lambda>r. case m r of
     (Ret a, r1) \<Rightarrow> f a r1
   | (Err e, r1) \<Rightarrow> (Err e, r1)
   | (Panic, r1) \<Rightarrow> (Panic, r1))"

text \<open>\<open>fmt.Errorf ("...%w", err)\<close> around an action's error.\<close>

definition io_wrap :: "string \<Rightarrow> 'a io \<Rightarrow> 'a io" where
  "io_wrap msg m = (\<lambda>r. case m r of
     (Err e, r1) \<Rightarrow> (Err (Wrapped msg e), r1)
   | (Ret a, r1) \<Rightarrow> (Ret a, r1)
   | (Panic, r1) \<Rightarrow> (Panic, r1))"

text \<open>\<open>Discard\<close> and \<open>Peek\<close> as the code calls them; the result of \<open>Discard\<close> is not looked at.\<close>

definition io_discard :: "nat \<Rightarrow> unit io" where
  "io_discard n = (\<lambda>r. (Ret (), snd (discard n r)))"

definition io_peek :: "nat \<Rightarrow> string io" where
  "io_peek n = (\<lambda>r. case peek n r of
     ((bs, None), r1) \<Rightarrow> (Ret bs, r1)
   | ((bs, Some e), r1) \<Rightarrow> (Err e, r1))"

section \<open>Values\<close>

definition le_nat :: "string \<Rightarrow> nat" where
  "le_nat bs = foldr (\<lambda>c n. of_char c + 256 * n) bs 0"

definition readStringValue :: "string io" where
  "readStringValue =
     io_bind (io_wrap ''expected to read attr-val length but got error: '' read_byte) (\<lambda>len.
     io_bind (io_wrap ''error reading attr-val '' (read_some (of_char len))) (\<lambda>valbuf.
       if length valbuf \<noteq> of_char len
       then io_err (ErrorString (''expected to read '' @ itoa (of_char len)
         @ '' bytes when reading attr-val but got '' @ itoa (int (length valbuf))))
       else io_ret valbuf))"

definition read_int_bytes :: "nat \<Rightarrow> string io" where
  "read_int_bytes n =
     io_bind (io_wrap ''error reading int value: '' (read_some n)) (\<lambda>buf.
       if length buf \<noteq> n
       then io_err (ErrorString (''expected to read int of '' @ itoa (int n) @ '' bytes but got ''
         @ itoa (int (length buf))))
       else io_ret buf)"

definition readUint64Value :: "uint64 io" where
  "readUint64Value = io_bind (read_int_bytes 8) (\<lambda>buf. io_ret (word_of_nat (le_nat buf)))"

definition readUint32Value :: "32 word io" where
  "readUint32Value = io_bind (read_int_bytes 4) (\<lambda>buf. io_ret (word_of_nat (le_nat buf)))"

section \<open>Contents\<close>

record redis_metadata =
  RedisVersion :: string
  Ctime :: uint64
  UsedMem :: uint64
  RedisBits :: "8 word"

record redis_database =
  Keys :: "string \<rightharpoonup> string"
  Expiries :: "string \<rightharpoonup> uint64"

record rdb_contents =
  Metadata :: redis_metadata
  Databases :: "redis_database list"

definition no_contents :: rdb_contents where
  "no_contents = \<lparr>Metadata = \<lparr>RedisVersion = [], Ctime = 0, UsedMem = 0, RedisBits = 0\<rparr>, Databases = []\<rparr>"

definition no_database :: redis_database where
  "no_database = \<lparr>Keys = Map.empty, Expiries = Map.empty\<rparr>"

section \<open>Sections\<close>

definition read_metadata :: "redis_metadata \<Rightarrow> redis_metadata io" where
  "read_metadata md =
     io_bind readStringValue (\<lambda>key.
       if key = ''redis-ver'' then
         io_bind (io_wrap ''error reading redis-ver value: '' readStringValue) (\<lambda>val.
           io_ret (md\<lparr>RedisVersion := val\<rparr>))
       else if key = ''ctime'' then
         io_bind (io_discard 1) (\<lambda>_.
         io_bind (io_wrap ''error reading ctime value: '' readUint32Value) (\<lambda>value.
           io_ret (md\<lparr>Ctime := ucast value\<rparr>)))
       else if key = ''redis-bits'' then
         io_bind (io_discard 1) (\<lambda>_.
         io_bind (io_wrap ''error reading redis-bits value: '' read_byte) (\<lambda>value.
           if (of_char value :: nat) \<noteq> 64
           then io_err (ErrorString (''unexpected redis-bits got '' @ itoa (of_char value)))
           else io_ret (md\<lparr>RedisBits := of_char value\<rparr>)))
       else if key = ''used-mem'' then
         io_bind (io_discard 1) (\<lambda>_.
         io_bind (io_wrap ''error reading used-mem value: '' readUint32Value) (\<lambda>value.
           io_ret (md\<lparr>UsedMem := ucast value\<rparr>)))
       else if key = ''aof-base'' then
         io_bind (io_discard 2) (\<lambda>_. io_ret md)
       else io_err (ErrorString (''unexpected metadata key: '' @ key)))"

definition byte_is :: "nat \<Rightarrow> char \<Rightarrow> bool" where
  "byte_is n c \<longleftrightarrow> (of_char c :: nat) = n"

text \<open>The optional expiry before a key: 0xFC and 8 bytes, or 0xFD and 4.\<close>

definition read_expiry :: "uint64 option io" where
  "read_expiry =
     io_bind (io_wrap ''error peaking key expiry: '' (io_peek 1)) (\<lambda>c.
       if byte_is 0xFC (c ! 0) then
         io_bind (io_discard 1) (\<lambda>_.
         io_bind (io_wrap ''error reading expiry as uint64 '' readUint64Value) (\<lambda>e. io_ret (Some e)))
       else if byte_is 0xFD (c ! 0) then
         io_bind (io_discard 1) (\<lambda>_.
         io_bind (io_wrap ''error reading expiry as uint32 '' readUint32Value) (\<lambda>e. io_ret (Some (ucast e))))
       else io_ret None)"

definition error_reading_key_type :: "char io \<Rightarrow> char io" where
  "error_reading_key_type m = (\<lambda>r. case m r of
     (Err e, r1) \<Rightarrow> (Err (ErrorString ''error reading the key type''), r1)
   | (x, r1) \<Rightarrow> (x, r1))"

definition read_key :: "redis_database \<Rightarrow> redis_database io" where
  "read_key db =
     io_bind read_expiry (\<lambda>expiry.
     io_bind (error_reading_key_type read_byte) (\<lambda>t.
     io_bind (io_wrap ''error reading key: '' readStringValue) (\<lambda>key.
       let db1 = (case expiry of None \<Rightarrow> db | Some e \<Rightarrow> db\<lparr>Expiries := (Expiries db)(key \<mapsto> e)\<rparr>) in
       if byte_is 0 t then
         io_bind (\<lambda>r. (Ret (), snd (peek 2 r))) (\<lambda>_.
         io_bind (io_wrap ''error reading val: '' readStringValue) (\<lambda>val.
           io_ret (db1\<lparr>Keys := (Keys db1)(key \<mapsto> val)\<rparr>)))
       else io_err (ErrorString (''unexpected key type: '' @ itoa (of_char t))))))"

primrec read_keys :: "nat \<Rightarrow> redis_database \<Rightarrow> redis_database io" where
  "read_keys 0 db = io_ret db"
| "read_keys (Suc n) db = io_bind (read_key db) (read_keys n)"

definition read_database :: "redis_database io" where
  "read_database =
     io_bind (io_wrap ''error reading database index '' read_byte) (\<lambda>_.
     io_bind (io_wrap ''error reading hash table size '' read_byte) (\<lambda>b.
       if \<not> byte_is 0xFB b
       then io_err (ErrorString (''expected hash table size info to follow but got '' @ itoa (of_char b)))
       else
         io_bind (io_wrap ''error reading hash table size '' read_byte) (\<lambda>ksize.
         io_bind (io_wrap ''error reading hash table size '' read_byte) (\<lambda>expsize.
           read_keys (of_char ksize) no_database))))"

datatype rdb_section = More rdb_contents | Done rdb_contents

text \<open>The checksum at the end is read and not looked at.\<close>

definition read_checksum :: "string io" where
  "read_checksum = io_wrap ''error reading 8 byte checksum value: '' (read_some 8)"

lemmas read_checksum_steps [rdb_simps] = read_checksum_def

definition read_section :: "rdb_contents \<Rightarrow> rdb_section io" where
  "read_section result = (\<lambda>r. case read_byte r of
     (Err e, r1) \<Rightarrow> (if e = EOF then Ret (Done result) else Err e, r1)
   | (Panic, r1) \<Rightarrow> (Panic, r1)
   | (Ret c, r1) \<Rightarrow>
       (if byte_is 0xFA c then
          io_bind (read_metadata (Metadata result)) (\<lambda>md. io_ret (More (result\<lparr>Metadata := md\<rparr>))) r1
        else if byte_is 0xFE c then
          io_bind read_database (\<lambda>db. io_ret (More (result\<lparr>Databases := Databases result @ [db]\<rparr>))) r1
        else if byte_is 0xFF c then
          io_bind read_checksum (\<lambda>_. io_ret (Done result)) r1
        else io_err (ErrorString (''unexpected seperator byte '' @ itoa (of_char c))) r1))"

section \<open>No action puts bytes back\<close>

definition shrinks :: "'a io \<Rightarrow> bool" where
  "shrinks m \<longleftrightarrow> (\<forall>r. length (pending (snd (m r))) \<le> length (pending r))"

lemma shrinksD: "shrinks m \<Longrightarrow> m r = (a, r') \<Longrightarrow> length (pending r') \<le> length (pending r)"
  unfolding shrinks_def by (metis snd_conv)

lemma shrinks_bind [io_shrinks]:
  assumes "shrinks m" "\<And>a. shrinks (f a)" shows "shrinks (io_bind m f)"
  unfolding shrinks_def
proof
  fix r
  obtain x r1 where m: "m r = (x, r1)" by fastforce
  with assms(1) have "length (pending r1) \<le> length (pending r)" by (rule shrinksD)
  moreover have "length (pending (snd (f a r1))) \<le> length (pending r1)" for a
    using assms(2) [of a] by (simp add: shrinks_def)
  ultimately show "length (pending (snd (io_bind m f r))) \<le> length (pending r)"
    using m order_trans by (cases x) (fastforce simp: io_bind_def)+
qed

lemma shrinks_if [io_shrinks]: "shrinks m \<Longrightarrow> shrinks n \<Longrightarrow> shrinks (if b then m else n)"
  by simp

lemma shrinks_wrap [io_shrinks]: "shrinks m \<Longrightarrow> shrinks (io_wrap s m)"
  by (auto simp: shrinks_def io_wrap_def split: prod.splits go.splits) (metis snd_conv)+

lemma shrinks_ret [io_shrinks]: "shrinks (io_ret a)" "shrinks (io_err e)"
  by (simp_all add: shrinks_def io_ret_def io_err_def)

lemma shrinks_read_byte [io_shrinks]: "shrinks read_byte"
  unfolding shrinks_def
proof
  fix r show "length (pending (snd (read_byte r))) \<le> length (pending r)"
    by (cases rule: bufio.rbyte_cases [of r]) auto
qed

lemma shrinks_read_some [io_shrinks]: "shrinks (read_some n)"
  unfolding shrinks_def
proof
  fix r
  have "pending (snd (read_some n r)) = pending r" if "fst (read_some n r) = Err e" for e
    using that src_read_Nil [of n "rsrc r"] fill_pending [of r]
    by (auto simp: read_some_def Let_def pending_def split: if_splits prod.splits)
  moreover have "fst (read_some n r) \<noteq> Panic" by (auto simp: read_some_def Let_def split: prod.splits)
  ultimately show "length (pending (snd (read_some n r))) \<le> length (pending r)"
    using read_some_pending(1) [of n r] by (cases "read_some n r"; cases "fst (read_some n r)") auto
qed

lemma shrinks_discard [io_shrinks]: "shrinks (io_discard n)"
  unfolding shrinks_def io_discard_def using bufio.rdiscard_law [of n] by (metis diff_le_self length_drop snd_conv)

lemma pending_peek: "n \<le> bufsize \<Longrightarrow> pending (snd (peek n r)) = pending r"
  using bufio.rpeek_law [of n r] by auto

lemma shrinks_peek [io_shrinks]: "n \<le> bufsize \<Longrightarrow> shrinks (io_peek n)"
  unfolding shrinks_def io_peek_def
  by (auto split: prod.splits option.splits) (metis pending_peek order_refl snd_conv)+

lemma shrinks_values [io_shrinks]:
  "shrinks readStringValue" "shrinks (read_int_bytes n)" "shrinks readUint64Value" "shrinks readUint32Value"
  unfolding readStringValue_def read_int_bytes_def readUint64Value_def readUint32Value_def
  by (intro io_shrinks)+

lemma shrinks_read_expiry [io_shrinks]: "shrinks read_expiry"
  unfolding read_expiry_def by (intro io_shrinks) simp

lemma shrinks_key_type [io_shrinks]: "shrinks m \<Longrightarrow> shrinks (error_reading_key_type m)"
  by (auto simp: shrinks_def error_reading_key_type_def split: prod.splits go.splits) (metis snd_conv)+

lemma shrinks_read_key [io_shrinks]: "shrinks (read_key db)"
proof -
  have "shrinks (\<lambda>r. (Ret (), snd (peek 2 r)))" by (simp add: shrinks_def pending_peek)
  then show ?thesis unfolding read_key_def Let_def by (intro io_shrinks)
qed

lemma shrinks_read_keys [io_shrinks]: "shrinks (read_keys n db)"
  by (induction n arbitrary: db) (simp_all, (intro io_shrinks; simp)+)

lemma shrinks_sections [io_shrinks]: "shrinks (read_metadata md)" "shrinks read_database"
  unfolding read_metadata_def read_database_def by (intro io_shrinks)+

lemma read_section_shrinks:
  assumes "read_section c r = (Ret (More c'), r')"
  shows "length (pending r') < length (pending r)"
proof (cases rule: bufio.rbyte_cases [of r])
  case (more b s r1)
  have "shrinks (io_bind (read_metadata (Metadata c)) (\<lambda>md. io_ret (More (c\<lparr>Metadata := md\<rparr>))))"
    "shrinks (io_bind read_database (\<lambda>db. io_ret (More (c\<lparr>Databases := Databases c @ [db]\<rparr>))))"
    "shrinks (io_bind read_checksum (\<lambda>_. io_ret (Done c)))"
    unfolding read_checksum_def by (intro io_shrinks)+
  from this [THEN shrinksD, of r1 "Ret (More c')" r'] have "length (pending r') \<le> length (pending r1)"
    using assms more by (auto simp: read_section_def io_err_def split: if_splits)
  then show ?thesis using more by simp
next
  case (end_of_input r1)
  then show ?thesis using assms by (auto simp: read_section_def split: if_splits)
qed

function read_sections :: "rdb_contents \<Rightarrow> rdb_contents io" where
  "read_sections c r = (case read_section c r of
     (Err e, r1) \<Rightarrow> (Err e, r1)
   | (Panic, r1) \<Rightarrow> (Panic, r1)
   | (Ret (Done c1), r1) \<Rightarrow> (Ret c1, r1)
   | (Ret (More c1), r1) \<Rightarrow> read_sections c1 r1)"
  by pat_completeness auto
termination
  by (relation "measure (\<lambda>(c, r). length (pending r))") (auto dest: read_section_shrinks [OF sym])

declare read_sections.simps [simp del]

text \<open>\<open>file\<close> is what \<open>os.Open\<close> returned: a reader on the file, or its error.\<close>

definition ReadRdbFromFile :: "reader go \<Rightarrow> rdb_contents go" where
  "ReadRdbFromFile file = go_bind file (\<lambda>r. fst (io_bind (io_discard 9) (\<lambda>_. read_sections no_contents) r))"

end
