(* ===== verification/Rdb_Format.thy ===== *)
theory Rdb_Format
  imports Rdb_File Kv_Streams Rdb_Transfer
begin

text \<open>
  The RDB format as an encoder: the sections a file of redis 7 has, of the kinds the
  reader knows (strings only, lengths below 256 in one byte, the auxiliary fields with
  the encodings redis gives them). \<open>ReadRdbFromFile\<close> reads back every such file that
  fits the reader's buffer, and \<open>InitialiseFromRdbFile\<close>
  (redis-go/app/store/kv_store.go) loads its only database into the store.
\<close>

section \<open>The encoder\<close>

fun le_bytes :: "nat \<Rightarrow> nat \<Rightarrow> string" where
  "le_bytes 0 n = []"
| "le_bytes (Suc k) n = char_of (n mod 256) # le_bytes k (n div 256)"

definition enc_str :: "string \<Rightarrow> string" where
  "enc_str s = char_of (length s) # s"

datatype meta_field =
    Redis_Ver string
  | Ctime_Field "32 word"
  | Redis_Bits_64
  | Used_Mem_Field "32 word"
  | Aof_Base

fun enc_meta :: "meta_field \<Rightarrow> string" where
  "enc_meta (Redis_Ver v) = enc_str ''redis-ver'' @ enc_str v"
| "enc_meta (Ctime_Field w) = enc_str ''ctime'' @ char_of (0xC2 :: nat) # le_bytes 4 (unat w)"
| "enc_meta Redis_Bits_64 = enc_str ''redis-bits'' @ [char_of (0xC0 :: nat), char_of (64 :: nat)]"
| "enc_meta (Used_Mem_Field w) = enc_str ''used-mem'' @ char_of (0xC2 :: nat) # le_bytes 4 (unat w)"
| "enc_meta Aof_Base = enc_str ''aof-base'' @ [char_of (0xC0 :: nat), char_of (0 :: nat)]"

datatype expiry_field = No_Expiry | Expiry_Ms uint64 | Expiry_Sec "32 word"

type_synonym key_entry = "expiry_field \<times> string \<times> string"

fun enc_expiry :: "expiry_field \<Rightarrow> string" where
  "enc_expiry No_Expiry = []"
| "enc_expiry (Expiry_Ms w) = char_of (0xFC :: nat) # le_bytes 8 (unat w)"
| "enc_expiry (Expiry_Sec w) = char_of (0xFD :: nat) # le_bytes 4 (unat w)"

fun enc_key :: "key_entry \<Rightarrow> string" where
  "enc_key (x, key, val) = enc_expiry x @ char_of (0 :: nat) # enc_str key @ enc_str val"

datatype rdb_part = Meta_Part meta_field | Database_Part char char "key_entry list"

fun enc_part :: "rdb_part \<Rightarrow> string" where
  "enc_part (Meta_Part m) = char_of (0xFA :: nat) # enc_meta m"
| "enc_part (Database_Part idx expsize kvs) =
     char_of (0xFE :: nat) # idx # char_of (0xFB :: nat) # char_of (length kvs) # expsize # concat (map enc_key kvs)"

definition enc_file :: "rdb_part list \<Rightarrow> string \<Rightarrow> string" where
  "enc_file parts checksum = ''REDIS0011'' @ concat (map enc_part parts) @ char_of (0xFF :: nat) # checksum"

section \<open>What a file says\<close>

fun meta_ok :: "meta_field \<Rightarrow> bool" where
  "meta_ok (Redis_Ver v) = (length v < 256)"
| "meta_ok _ = True"

fun key_ok :: "key_entry \<Rightarrow> bool" where
  "key_ok (x, key, val) = (length key < 256 \<and> length val < 256)"

fun part_ok :: "rdb_part \<Rightarrow> bool" where
  "part_ok (Meta_Part m) = meta_ok m"
| "part_ok (Database_Part idx expsize kvs) = (length kvs < 256 \<and> list_all key_ok kvs)"

fun meta_of :: "meta_field \<Rightarrow> redis_metadata \<Rightarrow> redis_metadata" where
  "meta_of (Redis_Ver v) md = md\<lparr>RedisVersion := v\<rparr>"
| "meta_of (Ctime_Field w) md = md\<lparr>Ctime := ucast w\<rparr>"
| "meta_of Redis_Bits_64 md = md\<lparr>RedisBits := 64\<rparr>"
| "meta_of (Used_Mem_Field w) md = md\<lparr>UsedMem := ucast w\<rparr>"
| "meta_of Aof_Base md = md"


text \<open>The deadline the reader takes: it does not convert seconds.\<close>

fun deadline :: "expiry_field \<Rightarrow> uint64 option" where
  "deadline No_Expiry = None"
| "deadline (Expiry_Ms w) = Some w"
| "deadline (Expiry_Sec w) = Some (ucast w)"

fun add_key :: "key_entry \<Rightarrow> redis_database \<Rightarrow> redis_database" where
  "add_key (x, key, val) db =
     (let db1 = (case deadline x of None \<Rightarrow> db | Some e \<Rightarrow> db\<lparr>Expiries := (Expiries db)(key \<mapsto> e)\<rparr>)
      in db1\<lparr>Keys := (Keys db1)(key \<mapsto> val)\<rparr>)"

fun part_of :: "rdb_part \<Rightarrow> rdb_contents \<Rightarrow> rdb_contents" where
  "part_of (Meta_Part m) c = c\<lparr>Metadata := meta_of m (Metadata c)\<rparr>"
| "part_of (Database_Part idx expsize kvs) c = c\<lparr>Databases := Databases c @ [fold add_key kvs no_database]\<rparr>"

section \<open>Actions on buffered bytes\<close>

definition having :: "reader \<Rightarrow> string \<Rightarrow> reader" where
  "having r s = r\<lparr>rbuf := s\<rparr>"

lemma io_bind_step [rdb_simps]: "m r = (Ret a, r1) \<Longrightarrow> io_bind m f r = f a r1"
  by (simp add: io_bind_def)

lemma io_wrap_step [rdb_simps]: "m r = (Ret a, r1) \<Longrightarrow> io_wrap s m r = (Ret a, r1)"
  by (simp add: io_wrap_def)

lemma read_byte_having [rdb_simps]: "read_byte (having r (c # s)) = (Ret c, having r s)"
  by (simp add: read_byte_def having_def)

lemma read_some_having [rdb_simps]: "length bs = n \<Longrightarrow> read_some n (having r (bs @ s)) = (Ret bs, having r s)"
  by (auto simp: read_some_def having_def)

lemma discard_having:
  assumes "bs \<noteq> []" "length bs = n" shows "discard n (having r (bs @ s)) = ((n, None), having r s)"
  using assms by (subst discard.simps) (auto simp: having_def discard.simps [of 0] Let_def min_def)

lemma io_discard_having [rdb_simps]:
  "bs \<noteq> [] \<Longrightarrow> length bs = n \<Longrightarrow> io_discard n (having r (bs @ s)) = (Ret (), having r s)"
  by (simp add: io_discard_def discard_having)

lemma io_discard_having_1 [rdb_simps]: "io_discard (Suc 0) (having r (c # s)) = (Ret (), having r s)"
  using io_discard_having [of "[c]" 1 r s] by simp

lemma io_discard_having_2 [rdb_simps]: "io_discard 2 (having r (c # d # s)) = (Ret (), having r s)"
  using io_discard_having [of "[c, d]" 2 r s] by simp

lemma peek_having: "n \<le> length s \<Longrightarrow> peek n (having r s) = ((take n s, None), having r s)"
  by (simp add: peek_def having_def peek_fill.simps [of n])

lemma io_peek_having [rdb_simps]: "io_peek (Suc 0) (having r (c # s)) = (Ret [c], having r (c # s))"
  by (simp add: io_peek_def peek_having)

lemma byte_is_char_of [simp]: "byte_is n (char_of m) \<longleftrightarrow> m mod 256 = n"
  by (auto simp: byte_is_def of_char_of)

lemma length_le_bytes [simp]: "length (le_bytes k n) = k"
  by (induction k arbitrary: n) auto

lemma le_nat_le_bytes: "le_nat (le_bytes k n) = n mod 256 ^ k"
proof (induction k arbitrary: n)
  case (Suc k)
  have "le_nat (le_bytes (Suc k) n) = n mod 256 + 256 * (n div 256 mod 256 ^ k)"
    using Suc [of "n div 256"] by (simp add: le_nat_def of_char_of)
  also have "\<dots> = n mod 256 ^ Suc k" by (metis add.commute mod_mult2_eq power_Suc)
  finally show ?case .
qed (simp add: le_nat_def)

lemma word_of_le_bytes:
  "word_of_nat (le_nat (le_bytes 8 (unat (w :: uint64)))) = w"
  "word_of_nat (le_nat (le_bytes 4 (unat (v :: 32 word)))) = v"
  using unsigned_less [of w, where ?'a = nat] unsigned_less [of v, where ?'a = nat] by (simp_all add: le_nat_le_bytes)

lemma readStringValue_having [rdb_simps]:
  assumes "length s < 256"
  shows "readStringValue (having r (enc_str s @ t)) = (Ret s, having r t)"
  using assms by (simp add: readStringValue_def enc_str_def rdb_simps of_char_of io_ret_def)

lemma readUint64Value_having [rdb_simps]:
  "readUint64Value (having r (le_bytes 8 (unat w) @ t)) = (Ret w, having r t)"
  by (simp add: readUint64Value_def read_int_bytes_def rdb_simps io_ret_def word_of_le_bytes)

lemma readUint32Value_having [rdb_simps]:
  "readUint32Value (having r (le_bytes 4 (unat w) @ t)) = (Ret w, having r t)"
  by (simp add: readUint32Value_def read_int_bytes_def rdb_simps io_ret_def word_of_le_bytes)

section \<open>Round trip, part by part\<close>

lemma bits_64: "(of_char (char_of (64 :: nat)) :: 8 word) = 64"
  by code_simp

lemma read_metadata_having:
  assumes "meta_ok m"
  shows "read_metadata md (having r (enc_meta m @ t)) = (Ret (meta_of m md), having r t)"
  using assms by (cases m) (simp_all add: read_metadata_def rdb_simps io_ret_def of_char_of bits_64)

lemma read_expiry_having:
  "read_expiry (having r (enc_expiry x @ char_of (0 :: nat) # t)) = (Ret (deadline x), having r (char_of (0 :: nat) # t))"
  by (cases x) (simp_all add: read_expiry_def rdb_simps io_ret_def)

lemma read_key_having:
  assumes "key_ok kv" "t \<noteq> []"
  shows "read_key db (having r (enc_key kv @ t)) = (Ret (add_key kv db), having r t)"
proof -
  obtain x key val where kv: "kv = (x, key, val)" by (cases kv)
  have "2 \<le> length (enc_str val @ t)" using assms(2) by (cases t) (auto simp: enc_str_def)
  then have p: "(\<lambda>r. (Ret (), snd (peek 2 r))) (having r (enc_str val @ t)) = (Ret (), having r (enc_str val @ t))"
    by (simp add: peek_having)
  have k: "error_reading_key_type read_byte (having r (char_of (0 :: nat) # s)) = (Ret (char_of (0 :: nat)), having r s)" for s
    by (simp add: error_reading_key_type_def rdb_simps)
  have "enc_key kv @ t = enc_expiry x @ char_of (0 :: nat) # enc_str key @ enc_str val @ t" by (simp add: kv)
  then show ?thesis using assms(1)
    by (simp add: read_key_def kv rdb_simps read_expiry_having k p io_ret_def Let_def)
qed

lemma read_keys_having:
  "list_all key_ok kvs \<Longrightarrow> t \<noteq> [] \<Longrightarrow>
   read_keys (length kvs) db (having r (concat (map enc_key kvs) @ t)) = (Ret (fold add_key kvs db), having r t)"
proof (induction kvs arbitrary: db)
  case (Cons kv kvs)
  have "read_key db (having r (enc_key kv @ concat (map enc_key kvs) @ t))
      = (Ret (add_key kv db), having r (concat (map enc_key kvs) @ t))"
    using Cons.prems by (intro read_key_having) auto
  then show ?case using Cons by (simp add: io_bind_step)
qed (simp add: io_ret_def)

lemma read_section_having:
  assumes "part_ok p" "t \<noteq> []"
  shows "read_section c (having r (enc_part p @ t)) = (Ret (More (part_of p c)), having r t)"
proof (cases p)
  case (Meta_Part m)
  then show ?thesis using assms
    by (simp add: read_section_def rdb_simps read_metadata_having io_ret_def)
next
  case (Database_Part idx expsize kvs)
  then have "read_database (having r (idx # char_of (0xFB :: nat) # char_of (length kvs) # expsize # concat (map enc_key kvs) @ t))
      = (Ret (fold add_key kvs no_database), having r t)"
    using assms by (simp add: read_database_def rdb_simps read_keys_having of_char_of)
  with Database_Part show ?thesis
    by (simp add: read_section_def read_byte_having io_bind_step io_ret_def)
qed

lemma read_sections_having:
  assumes "list_all part_ok parts" "length checksum = 8"
  shows "fst (read_sections c (having r (concat (map enc_part parts) @ char_of (0xFF :: nat) # checksum)))
    = Ret (fold part_of parts c)"
  using assms
proof (induction parts arbitrary: c)
  case Nil
  have "read_some 8 (having r checksum) = (Ret checksum, having r [])"
    using read_some_having [of checksum 8 r "[]"] Nil by simp
  then have "read_section c (having r (char_of (0xFF :: nat) # checksum)) = (Ret (Done c), having r [])"
    by (simp add: read_section_def rdb_simps io_ret_def)
  then show ?case by (simp add: read_sections.simps [of c])
next
  case (Cons p parts)
  have "read_section c (having r (enc_part p @ concat (map enc_part parts) @ char_of (0xFF :: nat) # checksum))
      = (Ret (More (part_of p c)), having r (concat (map enc_part parts) @ char_of (0xFF :: nat) # checksum))"
    using Cons.prems by (intro read_section_having) auto
  then show ?case using Cons by (simp add: read_sections.simps [of c])
qed

lemma discard_refill:
  assumes "s \<noteq> []" "length s \<le> bufsize" "0 < n"
  shows "discard n (new_reader [s] e) = discard n (having (new_reader [] e) s)"
  using assms by (simp add: discard.simps [of n] new_reader_def having_def fill_def)

lemma ReadRdbFromFile_enc:
  assumes "list_all part_ok parts" "length checksum = 8" "length (enc_file parts checksum) \<le> bufsize"
  shows "ReadRdbFromFile (Ret (new_reader [enc_file parts checksum] e)) = Ret (fold part_of parts no_contents)"
proof -
  let ?s = "concat (map enc_part parts) @ char_of (0xFF :: nat) # checksum"
  have "enc_file parts checksum \<noteq> []" by (simp add: enc_file_def)
  then have "io_discard 9 (new_reader [enc_file parts checksum] e)
      = io_discard 9 (having (new_reader [] e) (''REDIS0011'' @ ?s))"
    using discard_refill [of "enc_file parts checksum" 9 e] assms(3) by (simp add: io_discard_def enc_file_def)
  also have "\<dots> = (Ret (), having (new_reader [] e) ?s)"
    using io_discard_having [of "''REDIS0011''" 9 "new_reader [] e" ?s] by simp
  finally show ?thesis using read_sections_having [OF assms(1,2)]
    by (simp add: ReadRdbFromFile_def io_bind_step)
qed

section \<open>Loading a file into the store\<close>

text \<open>
  \<open>None\<close> is the end of the process. With several databases the code logs with zerolog's
  \<open>Fatal\<close> level; whether that call returns is the library's matter, so it is the
  parameter \<open>fatal_returns\<close>.
\<close>

definition err_not_exist :: go_error where
  "err_not_exist = IOError ''file does not exist''"

definition load_database :: "redis_database \<Rightarrow> kv_store \<Rightarrow> kv_store" where
  "load_database db k =
     k\<lparr>kvalues := kvalues k ++ (map_option VString \<circ> Keys db), expiries := expiries k ++ Expiries db\<rparr>"

definition InitialiseFromRdbFile :: "bool \<Rightarrow> reader go \<Rightarrow> kv_store \<Rightarrow> kv_store option" where
  "InitialiseFromRdbFile fatal_returns file k =
     (case ReadRdbFromFile file of
        Err e \<Rightarrow> (if e = err_not_exist then Some k else None)
      | Panic \<Rightarrow> None
      | Ret c \<Rightarrow>
          (if length (Databases c) = 0 then Some k
           else if length (Databases c) > 1 \<and> \<not> fatal_returns then None
           else Some (load_database (Databases c ! 0) k)))"

lemma typed_store_load:
  assumes "typed_store k" "store_ok k"
  shows "typed_store (load_database db k) \<and> store_ok (load_database db k)"
  using assms by (auto simp: typed_store_def store_ok_def load_database_def map_add_Some_iff)

lemma InitialiseFromRdbFile_ok:
  "InitialiseFromRdbFile fr file k = Some k' \<Longrightarrow> typed_store k \<Longrightarrow> store_ok k \<Longrightarrow> typed_store k' \<and> store_ok k'"
  using typed_store_load by (auto simp: InitialiseFromRdbFile_def split: go.splits if_splits)

lemma add_key_other:
  "key \<notin> (fst \<circ> snd) ` set kvs \<Longrightarrow> Keys (fold add_key kvs db) key = Keys db key
   \<and> Expiries (fold add_key kvs db) key = Expiries db key"
  by (induction kvs arbitrary: db) (auto simp: Let_def split: option.splits)

lemma add_key_in:
  "distinct (map (fst \<circ> snd) kvs) \<Longrightarrow> (x, key, val) \<in> set kvs \<Longrightarrow> Expiries db key = None \<Longrightarrow>
   Keys (fold add_key kvs db) key = Some val \<and> Expiries (fold add_key kvs db) key = deadline x"
proof (induction kvs arbitrary: db)
  case (Cons kv kvs)
  obtain y k v where kv: "kv = (y, k, v)" by (cases kv)
  show ?case
  proof (cases "key = k")
    case True
    have "k \<notin> (fst \<circ> snd) ` set kvs" using Cons.prems(1) kv by simp
    moreover have "(x, key, val) = kv" using Cons.prems(1,2) True kv by (auto simp: rev_image_eqI)
    ultimately show ?thesis using Cons.prems(3) kv True
      by (auto simp: add_key_other Let_def split: option.splits)
  next
    case False
    then have "Expiries (add_key kv db) key = None" using Cons.prems(3) kv
      by (auto simp: Let_def split: option.splits)
    then show ?thesis using Cons.IH [of "add_key kv db"] Cons.prems(1,2) False kv
      by (auto simp del: add_key.simps)
  qed
qed simp

lemma fold_meta_parts:
  "Databases (fold part_of (map Meta_Part ms) c) = Databases c"
  by (induction ms arbitrary: c) auto

lemma InitialiseFromRdbFile_enc:
  assumes "list_all meta_ok ms" "length kvs < 256" "list_all key_ok kvs" "length checksum = 8"
    and "length (enc_file (map Meta_Part ms @ [Database_Part idx expsize kvs]) checksum) \<le> bufsize"
  shows "InitialiseFromRdbFile fr (Ret (new_reader [enc_file (map Meta_Part ms @ [Database_Part idx expsize kvs]) checksum] e)) k
    = Some (load_database (fold add_key kvs no_database) k)"
proof -
  have "list_all part_ok (map Meta_Part ms @ [Database_Part idx expsize kvs])"
    using assms(1-3) by (auto simp: list_all_iff)
  from ReadRdbFromFile_enc [OF this assms(4,5), of e] show ?thesis
    by (simp add: InitialiseFromRdbFile_def fold_meta_parts no_contents_def)
qed

lemma ucast_less_2pow32: "(ucast (w :: 32 word) :: uint64) < 4294967296"
proof -
  have w: "unat w < 4294967296" using unsigned_less [of w, where ?'a = nat] by simp
  then have "unat (ucast w :: uint64) = unat w" by (simp add: unsigned_ucast_eq take_bit_nat_eq_self)
  with w show ?thesis by (simp add: word_less_nat_alt)
qed

section \<open>The snapshot a leader sends\<close>

lemma le_bytes_4: "le_bytes 4 n = map char_of [n mod 256, n div 256 mod 256, n div 256 div 256 mod 256, n div 256 div 256 div 256 mod 256]"
proof -
  have "le_bytes (Suc (Suc (Suc (Suc 0)))) n = map char_of [n mod 256, n div 256 mod 256, n div 256 div 256 mod 256, n div 256 div 256 div 256 mod 256]"
    by simp
  moreover have "(4 :: nat) = Suc (Suc (Suc (Suc 0)))" by simp
  ultimately show ?thesis by (simp only:)
qed

lemma empty_rdb_file:
  "empty_rdb = enc_file (map Meta_Part [Redis_Ver ''7.2.0'', Redis_Bits_64, Ctime_Field 0x65BC086D,
     Used_Mem_Field 0x10C4B0, Aof_Base]) (drop 80 empty_rdb)"
proof -
  have "take 80 empty_rdb = ''REDIS0011'' @ char_of (0xFA :: nat) # enc_str ''redis-ver'' @ enc_str ''7.2.0''
     @ char_of (0xFA :: nat) # enc_str ''redis-bits'' @ [char_of (0xC0 :: nat), char_of (64 :: nat)]
     @ char_of (0xFA :: nat) # enc_str ''ctime'' @ char_of (0xC2 :: nat) # map char_of [0x6D, 0x08, 0xBC, 0x65 :: nat]
     @ char_of (0xFA :: nat) # enc_str ''used-mem'' @ char_of (0xC2 :: nat) # map char_of [0xB0, 0xC4, 0x10, 0x00 :: nat]
     @ char_of (0xFA :: nat) # enc_str ''aof-base'' @ [char_of (0xC0 :: nat), char_of (0 :: nat), char_of (0xFF :: nat)]"
    unfolding empty_rdb_def ReadRdb_def by code_simp
  then show ?thesis
    by (subst append_take_drop_id [of 80 empty_rdb, symmetric]) (simp add: enc_file_def le_bytes_4)
qed

section \<open>Properties\<close>


definition sample_keys :: "key_entry list" where
  "sample_keys = [(Expiry_Ms 1729939775013, ''m'', ''v''), (Expiry_Sec 2000000000, ''k'', ''v''), (No_Expiry, ''x'', ''y'')]"

definition sample_file :: string where
  "sample_file = enc_file (map Meta_Part [Redis_Ver ''7.2.0'', Redis_Bits_64]
     @ [Database_Part (CHR 0x00) (CHR 0x01) sample_keys]) ''checksum''"

lemma sample_file_ok:
  "length sample_file \<le> bufsize" "length ''checksum'' = 8" "list_all key_ok sample_keys" "length sample_keys < 256"
  "distinct (map (fst \<circ> snd) sample_keys)"
  by (simp_all add: sample_file_def enc_file_def enc_str_def sample_keys_def)


text \<open>C27. A key whose deadline an RDB file gives in seconds is expired as soon as it is loaded:
  from a file with one database of fewer than 256 keys, all different, of strings shorter than
  256 bytes, that fits the reader's buffer, at every clock from \<open>2 ^ 32\<close> milliseconds on, which is February 1970, the first Get of such a key misses, however
  far in the future the deadline is, because the seconds are taken for milliseconds.\<close>

theorem rdb_seconds_deadline_is_past:
  assumes "list_all meta_ok metas" "length kvs < 256" "list_all key_ok kvs" "length checksum = 8"
    and "length (enc_file (map Meta_Part metas @ [Database_Part idx expsize kvs]) checksum) \<le> bufsize"
    and "distinct (map (fst \<circ> snd) kvs)" "(Expiry_Sec w, key, val) \<in> set kvs" "4294967296 \<le> ms"
  shows "\<exists>k. InitialiseFromRdbFile fr
        (Ret (new_reader [enc_file (map Meta_Part metas @ [Database_Part idx expsize kvs]) checksum] EOF)) new_kv_store = Some k
    \<and> fst (kv_get ms key k) = (Some (VString []), False)"
proof -
  let ?db = "fold add_key kvs no_database"
  have "Expiries ?db key = deadline (Expiry_Sec w)"
    using add_key_in [OF assms(6,7), of no_database] by (simp add: no_database_def)
  then have "expiries (load_database ?db new_kv_store) key = Some (ucast w)"
    by (simp add: load_database_def new_kv_store_def)
  moreover have "(ucast w :: uint64) < ms"
    using assms(8) by (rule less_le_trans [rotated]) (simp add: ucast_less_2pow32)
  ultimately show ?thesis
    using InitialiseFromRdbFile_enc [OF assms(1-5)] by (simp add: kv_get_def)
qed

theorem rdb_seconds_deadline_is_past_witness:
  "\<exists>k. InitialiseFromRdbFile False (Ret (new_reader [sample_file] EOF)) new_kv_store = Some k
    \<and> fst (kv_get 1700000000000 ''k'' k) = (Some (VString []), False)"
  using rdb_seconds_deadline_is_past [of "[Redis_Ver ''7.2.0'', Redis_Bits_64]" sample_keys "''checksum''" "CHR 0x00" "CHR 0x01"
      2000000000 "''k''" "''v''" 1700000000000 False, folded sample_file_def] sample_file_ok by (simp add: sample_keys_def)

text \<open>The snapshot that a leader sends decodes, goes out under its length, and is itself
  an RDB file the program reads: version 7.2.0 and no database.\<close>

theorem leader_snapshot_is_valid:
  "SerializeB64RdbToString ReadRdb = Ret (''$88'' @ CRLF @ empty_rdb)
   \<and> ReadRdbFromFile (Ret (new_reader [empty_rdb] EOF)) = Ret \<lparr>Metadata = \<lparr>RedisVersion = ''7.2.0'',
        Ctime = 0x65BC086D, UsedMem = 0x10C4B0, RedisBits = 64\<rparr>, Databases = []\<rparr>"
proof -
  let ?parts = "map Meta_Part [Redis_Ver ''7.2.0'', Redis_Bits_64, Ctime_Field 0x65BC086D, Used_Mem_Field 0x10C4B0, Aof_Base]"
  have "ReadRdbFromFile (Ret (new_reader [enc_file ?parts (drop 80 empty_rdb)] EOF)) = Ret (fold part_of ?parts no_contents)"
  proof (rule ReadRdbFromFile_enc)
    show "length (enc_file ?parts (drop 80 empty_rdb)) \<le> bufsize"
      unfolding empty_rdb_file [symmetric] length_empty_rdb by simp
  qed (simp_all add: length_empty_rdb)
  then have "ReadRdbFromFile (Ret (new_reader [empty_rdb] EOF)) = Ret (fold part_of ?parts no_contents)"
    by (simp only: empty_rdb_file [symmetric])
  then show ?thesis by (simp add: SerializeB64RdbToString_ReadRdb no_contents_def)
qed

end
