(* ===== verification/Repl_Client.thy ===== *)
theory Repl_Client
  imports Repl_Listener Rdb_Format
begin

text \<open>
  The follower's client to its leader (redis-go/app/replication/repl_client.go) and the
  leader's replication id (repl_utils.go). The connection appears as the reader on it and
  the list of messages written to it; \<open>wfail n\<close> is the error of the \<open>n\<close>-th write, if any,
  and \<open>dial\<close> what \<open>net.Dial\<close> returns for an address. \<open>Panic\<close> is the end of the process.
\<close>

section \<open>The client\<close>

record repl_client =
  Reader :: reader
  sent :: "string list"
  inboundPort :: int
  leader_repl_id :: string

definition NewReplicationClient :: "(string \<Rightarrow> reader go) \<Rightarrow> string \<Rightarrow> int \<Rightarrow> repl_client go" where
  "NewReplicationClient dial addr port =
     go_bind (dial addr) (\<lambda>r. Ret \<lparr>Reader = r, sent = [], inboundPort = port, leader_repl_id = ''?''\<rparr>)"

text \<open>The conversion \<open>string (n)\<close> of an int: the UTF-8 bytes of code point \<open>n\<close>.\<close>

definition string_of_rune :: "int \<Rightarrow> string" where
  "string_of_rune n =
     (let u = nat (if n < 0 \<or> n > 0x10FFFF \<or> (0xD800 \<le> n \<and> n \<le> 0xDFFF) then 0xFFFD else n) in
      if u < 0x80 then [char_of u]
      else if u < 0x800 then [char_of (0xC0 + u div 64), char_of (0x80 + u mod 64)]
      else if u < 0x10000 then [char_of (0xE0 + u div 4096), char_of (0x80 + u div 64 mod 64), char_of (0x80 + u mod 64)]
      else [char_of (0xF0 + u div 262144), char_of (0x80 + u div 4096 mod 64), char_of (0x80 + u div 64 mod 64),
            char_of (0x80 + u mod 64)])"

type_synonym write_errors = "nat \<Rightarrow> go_error option"

definition send :: "write_errors \<Rightarrow> resp \<Rightarrow> repl_client \<Rightarrow> string go \<times> repl_client" where
  "send wfail req c =
     (case wfail (length (sent c)) of
        Some e \<Rightarrow> (Err e, c)
      | None \<Rightarrow>
          (case read_string LF (Reader c) of ((res, err), r) \<Rightarrow>
            (case err of None \<Rightarrow> Ret res | Some e \<Rightarrow> Err e,
             c\<lparr>Reader := r, sent := sent c @ [as_resp_string req]\<rparr>)))"

text \<open>The text of the error is \<open>%q\<close>-quoted in the code; it is only logged.\<close>

definition expect :: "string \<Rightarrow> string go \<times> repl_client \<Rightarrow> unit go \<times> repl_client" where
  "expect eres m =
     (case m of
        (Ret res, c) \<Rightarrow>
          (if res \<noteq> eres
           then (Err (ErrorString (''unexpected response, expected '' @ eres @ '' but got '' @ res)), c)
           else (Ret (), c))
      | (Err e, c) \<Rightarrow> (Err e, c)
      | (Panic, c) \<Rightarrow> (Panic, c))"

definition replconf1 :: "int \<Rightarrow> resp list" where
  "replconf1 port = map RespBulkString [''REPLCONF'', ''listening-port'', itoa port]"

definition replconf2 :: "int \<Rightarrow> resp list" where
  "replconf2 port = map RespBulkString [''REPLCONF'', ''capa'', ''psync2'', string_of_rune port]"

definition psync_request :: "string \<Rightarrow> resp list" where
  "psync_request replid = map RespBulkString [''PSYNC'', replid, itoa (-1)]"

definition sendPing :: "write_errors \<Rightarrow> repl_client \<Rightarrow> unit go \<times> repl_client" where
  "sendPing wfail c = expect (''+PONG'' @ CRLF) (send wfail ping_command c)"

definition sendReplconf1 :: "write_errors \<Rightarrow> repl_client \<Rightarrow> unit go \<times> repl_client" where
  "sendReplconf1 wfail c = expect (''+OK'' @ CRLF) (send wfail (RespArray (replconf1 (inboundPort c))) c)"

definition sendReplconf2 :: "write_errors \<Rightarrow> repl_client \<Rightarrow> unit go \<times> repl_client" where
  "sendReplconf2 wfail c = expect (''+OK'' @ CRLF) (send wfail (RespArray (replconf2 (inboundPort c))) c)"

definition SendHandshake :: "write_errors \<Rightarrow> repl_client \<Rightarrow> unit go \<times> repl_client" where
  "SendHandshake wfail c =
     (case sendPing wfail c of
        (Ret _, c1) \<Rightarrow>
          (case sendReplconf1 wfail c1 of
             (Ret _, c2) \<Rightarrow> sendReplconf2 wfail c2
           | (x, c2) \<Rightarrow> (x, c2))
      | (x, c1) \<Rightarrow> (x, c1))"

definition PSync :: "write_errors \<Rightarrow> repl_client \<Rightarrow> unit go \<times> repl_client" where
  "PSync wfail c =
     (case send wfail (RespArray (psync_request (leader_repl_id c))) c of
        (Ret res, c1) \<Rightarrow>
          (case DeserializeRdb (Reader c1) of
             (Ret data, r) \<Rightarrow> (Ret (), c1\<lparr>Reader := r\<rparr>)
           | (_, r) \<Rightarrow> (Panic, c1\<lparr>Reader := r\<rparr>))
      | (Err e, c1) \<Rightarrow> (Err e, c1)
      | (Panic, c1) \<Rightarrow> (Panic, c1))"

text \<open>\<open>rand.Intn\<close> is the argument \<open>intn\<close>: the numbers below 62 it yields in turn.\<close>

definition charset :: string where
  "charset = ''abcdefghijklmnopqrstuvwxyzABCDEFGHIJKLMNOPQRSTUVWXYZ0123456789''"

definition GenerateReplId :: "(nat \<Rightarrow> nat) \<Rightarrow> string" where
  "GenerateReplId intn = map (\<lambda>i. charset ! intn i) [0..<40]"

section \<open>One exchange\<close>

lemma send_line:
  assumes "wfail (length (sent c)) = None" "LF \<notin> set s" "pending (Reader c) = s @ CRLF @ t"
  shows "\<exists>r. send wfail req c = (Ret (s @ CRLF), c\<lparr>Reader := r, sent := sent c @ [as_resp_string req]\<rparr>) \<and> pending r = t"
proof -
  obtain r where "read_string LF (Reader c) = ((s @ CRLF, None), r)" "pending r = t"
    using bufio.rstring_crlf [OF assms(2,3)] by blast
  then show ?thesis using assms(1) by (intro exI [of _ r]) (simp add: send_def)
qed

lemma send_line_buffered:
  assumes "wfail (length (sent c)) = None" "LF \<notin> set s" "rbuf (Reader c) = s @ CRLF @ t"
  shows "send wfail req c = (Ret (s @ CRLF), c\<lparr>Reader := (Reader c)\<lparr>rbuf := t\<rparr>, sent := sent c @ [as_resp_string req]\<rparr>)"
proof -
  have "LF \<notin> set (s @ [CR])" using assms(2) by simp
  from takeWhile_neq_append [OF this] dropWhile_neq_append [OF this] show ?thesis
    using assms by (simp add: send_def read_string_def read_string_acc.simps [of LF])
qed

lemma string_of_rune_not_Nil [simp]: "string_of_rune n \<noteq> []"
  by (simp add: string_of_rune_def Let_def)

definition handshake_requests :: "int \<Rightarrow> resp list list" where
  "handshake_requests port = [[RespBulkString ''PING''], replconf1 port, replconf2 port]"

lemma SendHandshake_answered:
  assumes "\<forall>n. wfail n = None" "pending (Reader c) = ''+PONG'' @ CRLF @ ''+OK'' @ CRLF @ ''+OK'' @ CRLF @ t"
  shows "\<exists>r. SendHandshake wfail c = (Ret (), c\<lparr>Reader := r,
      sent := sent c @ map (\<lambda>arr. as_resp_string (RespArray arr)) (handshake_requests (inboundPort c))\<rparr>)
    \<and> pending r = t"
proof -
  obtain r1 where 1: "send wfail ping_command c
      = (Ret (''+PONG'' @ CRLF), c\<lparr>Reader := r1, sent := sent c @ [as_resp_string ping_command]\<rparr>)"
    "pending r1 = ''+OK'' @ CRLF @ ''+OK'' @ CRLF @ t"
    using send_line [of wfail c "''+PONG''" "''+OK'' @ CRLF @ ''+OK'' @ CRLF @ t" ping_command] assms by auto
  let ?c1 = "c\<lparr>Reader := r1, sent := sent c @ [as_resp_string ping_command]\<rparr>"
  obtain r2 where 2: "send wfail (RespArray (replconf1 (inboundPort c))) ?c1
      = (Ret (''+OK'' @ CRLF), ?c1\<lparr>Reader := r2, sent := sent ?c1 @ [as_resp_string (RespArray (replconf1 (inboundPort c)))]\<rparr>)"
    "pending r2 = ''+OK'' @ CRLF @ t"
    using send_line [of wfail ?c1 "''+OK''" "''+OK'' @ CRLF @ t"] assms(1) 1(2) by fastforce
  let ?c2 = "?c1\<lparr>Reader := r2, sent := sent ?c1 @ [as_resp_string (RespArray (replconf1 (inboundPort c)))]\<rparr>"
  obtain r3 where 3: "send wfail (RespArray (replconf2 (inboundPort c))) ?c2
      = (Ret (''+OK'' @ CRLF), ?c2\<lparr>Reader := r3, sent := sent ?c2 @ [as_resp_string (RespArray (replconf2 (inboundPort c)))]\<rparr>)"
    "pending r3 = t"
    using send_line [of wfail ?c2 "''+OK''" t] assms(1) 2(2) by fastforce
  from 1 2 3 show ?thesis
    by (auto simp: SendHandshake_def sendPing_def sendReplconf1_def sendReplconf2_def expect_def
        handshake_requests_def ping_command_def simp del: as_resp_string.simps)
qed

section \<open>The leader's answers\<close>

lemma leader_ping:
  "TxQueue h c = None \<Longrightarrow>
   HandleCommand sch \<lparr>ConnId = c, RespArr = args\<rparr> ''PING'' h = (Reply (''+PONG'' @ CRLF), h)"
proof -
  have "to_lower ''PING'' = ''ping''" by code_simp
  then show "TxQueue h c = None \<Longrightarrow> ?thesis" by (simp add: HandleCommand_direct dispatch_def HandlePing_def Let_def)
qed

lemma leader_replconf:
  assumes "TxQueue h c = None" "to_lower s \<in> {''listening-port'', ''capa''}"
  shows "HandleCommand sch \<lparr>ConnId = c, RespArr = RespBulkString name # RespBulkString s # rest\<rparr> ''REPLCONF'' h
    = (Reply (''+OK'' @ CRLF), h)"
  using assms getack_request(3)
  by (auto simp: HandleCommand_direct dispatch_def HandleReplconf_def with_ret_def bulk_at_def Let_def ok_response_def)

lemma leader_psync:
  assumes "TxQueue h c = None"
  shows "HandleCommand sch \<lparr>ConnId = c, RespArr = args\<rparr> ''PSYNC'' h
    = (Streaming (''+FULLRESYNC '' @ LeaderReplId h @ '' 0'' @ CRLF @ ''$88'' @ CRLF @ empty_rdb), h)"
proof -
  have l: "to_lower ''PSYNC'' = ''psync''" and n: "itoa 0 = ''0''" by code_simp+
  show ?thesis using assms
    by (simp add: HandleCommand_direct dispatch_def HandlePSync_def SerializeB64RdbToString_ReadRdb
        psync_response_def l n Let_def)
qed

lemma leader_answers_handshake:
  assumes "TxQueue h c = None"
  shows "serve_all sch i c (map request_of (handshake_requests port)) h
    = (map Reply [''+PONG'' @ CRLF, ''+OK'' @ CRLF, ''+OK'' @ CRLF], h)"
proof -
  have l: "to_lower ''listening-port'' = ''listening-port''" "to_lower ''capa'' = ''capa''" by code_simp+
  show ?thesis using assms
    by (simp add: handshake_requests_def request_of_def replconf1_def replconf2_def leader_ping leader_replconf l)
qed

lemma PSync_buffered:
  assumes "wfail (length (sent c)) = None" "LF \<notin> set s" "d \<noteq> []" "length d \<le> 281474976710656"
    and "rbuf (Reader c) = s @ CRLF @ ''$'' @ itoa (int (length d)) @ CRLF @ d @ t"
  shows "PSync wfail c = (Ret (), c\<lparr>Reader := (Reader c)\<lparr>rbuf := t\<rparr>,
    sent := sent c @ [as_resp_string (RespArray (psync_request (leader_repl_id c)))]\<rparr>)"
proof -
  let ?rest = "''$'' @ itoa (int (length d)) @ CRLF @ d @ t"
  have "send wfail (RespArray (psync_request (leader_repl_id c))) c = (Ret (s @ CRLF), c\<lparr>Reader := (Reader c)\<lparr>rbuf := ?rest\<rparr>,
      sent := sent c @ [as_resp_string (RespArray (psync_request (leader_repl_id c)))]\<rparr>)"
    using send_line_buffered [of wfail c s ?rest] assms(1,2,5) by simp
  moreover have "DeserializeRdb ((Reader c)\<lparr>rbuf := ?rest\<rparr>) = (Ret d, (Reader c)\<lparr>rbuf := t\<rparr>)"
    using DeserializeRdb_buffered [of "(Reader c)\<lparr>rbuf := ?rest\<rparr>" d t] assms(3,4) by simp
  ultimately show ?thesis by (simp add: PSync_def del: as_resp_string.simps)
qed

lemma handshake_requests_wire: "list_all wire_request (handshake_requests port)"
  by (simp add: handshake_requests_def replconf1_def replconf2_def wire_request_def)

section \<open>Properties\<close>

text \<open>Handshake: a leader of this program answers the three requests a follower of this
  program sends, without changing its state, and the follower, whatever the pieces its
  answers arrive in, accepts them, having written exactly these requests and read
  exactly these answers.\<close>

theorem handshake_succeeds:
  assumes "TxQueue h c = None" "\<forall>n. wfail n = None"
  shows "\<exists>rs. serve_all sch i c (map request_of (handshake_requests port)) h = (map Reply rs, h)
    \<and> list_all wire_request (handshake_requests port)
    \<and> (\<forall>cl t. inboundPort cl = port \<and> pending (Reader cl) = concat rs @ t \<longrightarrow>
        (\<exists>r. SendHandshake wfail cl = (Ret (), cl\<lparr>Reader := r,
            sent := sent cl @ map (\<lambda>arr. as_resp_string (RespArray arr)) (handshake_requests port)\<rparr>)
          \<and> pending r = t))"
  using leader_answers_handshake [OF assms(1)] handshake_requests_wire SendHandshake_answered [OF assms(2)]
  by (intro exI [of _ "[''+PONG'' @ CRLF, ''+OK'' @ CRLF, ''+OK'' @ CRLF]"]) auto

definition sample_client :: "string list \<Rightarrow> repl_client" where
  "sample_client pieces = \<lparr>Reader = new_reader pieces EOF, sent = [], inboundPort = 6380, leader_repl_id = ''?''\<rparr>"

theorem handshake_succeeds_witness:
  "\<exists>r. SendHandshake (\<lambda>_. None) (sample_client [''+PO'', ''NG'' @ CRLF @ ''+OK'' @ CRLF @ ''+O'', ''K'' @ CRLF])
    = (Ret (), (sample_client [])\<lparr>Reader := r, sent := map (\<lambda>arr. as_resp_string (RespArray arr)) (handshake_requests 6380)\<rparr>)
    \<and> pending r = []"
proof -
  let ?c = "sample_client [''+PO'', ''NG'' @ CRLF @ ''+OK'' @ CRLF @ ''+O'', ''K'' @ CRLF]"
  obtain rs where rs: "serve_all still_env 0 7 (map request_of (handshake_requests 6380)) fresh_host = (map Reply rs, fresh_host)"
    "\<And>cl t. inboundPort cl = 6380 \<Longrightarrow> pending (Reader cl) = concat rs @ t \<Longrightarrow>
        (\<exists>r. SendHandshake (\<lambda>_. None) cl = (Ret (), cl\<lparr>Reader := r,
            sent := sent cl @ map (\<lambda>arr. as_resp_string (RespArray arr)) (handshake_requests 6380)\<rparr>)
          \<and> pending r = t)"
    using handshake_succeeds [OF fresh_host_ok(2), of "\<lambda>_. None" still_env 0 7 6380] by blast
  have "map Reply rs = map Reply [''+PONG'' @ CRLF, ''+OK'' @ CRLF, ''+OK'' @ CRLF]"
    using rs(1) leader_answers_handshake [OF fresh_host_ok(2)] by simp
  then have "rs = [''+PONG'' @ CRLF, ''+OK'' @ CRLF, ''+OK'' @ CRLF]" by auto
  with rs(2) [of ?c "[]"] show ?thesis by (simp add: sample_client_def new_reader_def pending_def)
qed

text \<open>Resynchronisation: when what a leader writes in answer to PSYNC has arrived in one
  piece, followed by the first events, the follower's \<open>PSync\<close> succeeds and leaves in the
  buffer exactly the events, for the listener that goes on with the same reader.\<close>

theorem psync_hands_over_events:
  assumes "TxQueue h c = None" "LF \<notin> set (LeaderReplId h)" "wfail (length (sent cl)) = None"
    and "HandleCommand sch \<lparr>ConnId = c, RespArr = psync_request (leader_repl_id cl)\<rparr> ''PSYNC'' h = (Streaming w, h')"
    and "rbuf (Reader cl) = w @ events"
  shows "\<exists>cl'. PSync wfail cl = (Ret (), cl') \<and> Reader cl' = (Reader cl)\<lparr>rbuf := events\<rparr>
    \<and> sent cl' = sent cl @ [as_resp_string (RespArray (psync_request (leader_repl_id cl)))] \<and> h' = h"
proof -
  let ?s = "''+FULLRESYNC '' @ LeaderReplId h @ '' 0''"
  have w: "w = ?s @ CRLF @ ''$88'' @ CRLF @ empty_rdb" "h' = h"
    using leader_psync [OF assms(1), of sch "psync_request (leader_repl_id cl)"] assms(4) by simp_all
  have n: "itoa 88 = ''88''" by code_simp
  have "rbuf (Reader cl) = ?s @ CRLF @ ''$'' @ itoa (int (length empty_rdb)) @ CRLF @ empty_rdb @ events"
    using assms(5) w n by (simp add: length_empty_rdb)
  moreover have "LF \<notin> set ?s" "empty_rdb \<noteq> []" using assms(2) length_empty_rdb by auto
  ultimately show ?thesis using PSync_buffered [of wfail cl ?s empty_rdb events] assms(3) w(2) length_empty_rdb by simp
qed

theorem psync_hands_over_events_witness:
  "\<exists>cl'. PSync (\<lambda>_. None) ((sample_client [])\<lparr>Reader := buffered (''+FULLRESYNC '' @ LeaderReplId fresh_host @ '' 0'' @ CRLF
      @ ''$88'' @ CRLF @ empty_rdb @ ''*1'')\<rparr>) = (Ret (), cl') \<and> rbuf (Reader cl') = ''*1''"
proof -
  have "LF \<notin> set (LeaderReplId fresh_host)" by (simp add: fresh_host_def init_host_def)
  from psync_hands_over_events [OF fresh_host_ok(2) this _ leader_psync [OF fresh_host_ok(2)], of "\<lambda>_. None"
      "(sample_client [])\<lparr>Reader := buffered (''+FULLRESYNC '' @ LeaderReplId fresh_host @ '' 0'' @ CRLF
      @ ''$88'' @ CRLF @ empty_rdb @ ''*1'')\<rparr>" "''*1''"]
  show ?thesis by (auto simp: buffered_def)
qed

text \<open>A snapshot that has arrived in part is accepted: \<open>DeserializeRdb\<close> returns what is
  in the buffer filled up with zero bytes, and takes nothing of the rest of the
  snapshot, which the follower then reads as commands.\<close>

theorem short_snapshot_accepted:
  assumes "rbuf r = ''$'' @ itoa (int n) @ CRLF @ d" "d \<noteq> []" "length d < n" "n \<le> 281474976710656"
  shows "DeserializeRdb r = (Ret (d @ replicate (n - length d) (CHR 0x00)), r\<lparr>rbuf := []\<rparr>)"
proof -
  let ?n = "itoa (int n)"
  have len: "in_int64 (int n)" using assms(4) by (simp add: in_int64_def)
  have nolf: "LF \<notin> set (?n @ [CR])" by simp
  have one: "read_some 1 r = (Ret ''$'', r\<lparr>rbuf := ?n @ CRLF @ d\<rparr>)"
    using assms(1) by (simp add: read_some_def)
  have line: "rdb_read_line (r\<lparr>rbuf := ?n @ CRLF @ d\<rparr>) = (Ret ?n, r\<lparr>rbuf := d\<rparr>)"
    using takeWhile_neq_append [OF nolf] dropWhile_neq_append [OF nolf]
    by (simp add: rdb_read_line_def read_string_def read_string_acc.simps [of LF])
  have "read_some n (r\<lparr>rbuf := d\<rparr>) = (Ret d, r\<lparr>rbuf := []\<rparr>)"
    using assms(2,3) by (simp add: read_some_def)
  then show ?thesis using one line len assms(4) by (simp add: DeserializeRdb_def make_ok_def)
qed

theorem short_snapshot_accepted_witness:
  "DeserializeRdb \<lparr>rbuf = ''$5'' @ CRLF @ ''RED'', rsrc = [''IS''], rerrs = []\<rparr>
    = (Ret (''RED'' @ replicate 2 (CHR 0x00)), \<lparr>rbuf = [], rsrc = [''IS''], rerrs = []\<rparr>)"
proof -
  have "itoa 5 = ''5''" by code_simp
  then show ?thesis
    using short_snapshot_accepted [of "\<lparr>rbuf = ''$5'' @ CRLF @ ''RED'', rsrc = [''IS''], rerrs = []\<rparr>" 5 "''RED''"] by simp
qed

end
