(* ===== verification/Redis_Server.thy ===== *)
theory Redis_Server
  imports Repl_Client
begin

text \<open>
  Starting a redis process (redis-go/app/server.go): \<open>parseArgs\<close>, the initial shared
  state of \<open>main\<close>, and a follower's way from dialling its leader to the replication
  listener. \<open>None\<close> is the end of the process (\<open>os.Exit\<close>).
\<close>

section \<open>Arguments\<close>

record server_config =
  confPort :: int
  confLeaderAddr :: string
  confDebug :: bool
  confDbFilename :: string
  confDir :: string

definition default_config :: server_config where
  "default_config = \<lparr>confPort = 6379, confLeaderAddr = [], confDebug = False,
     confDbFilename = ''dump.rdb'', confDir = ''/tmp/redis-files/''\<rparr>"

text \<open>The value of \<open>--replicaof\<close>: exactly two words, the second a number.\<close>

definition replicaof_addr :: "string \<Rightarrow> string option" where
  "replicaof_addr replicaof =
     (let parts = split_on (CHR '' '') replicaof in
      if length parts \<noteq> 2 then None
      else case atoi (parts ! 1) of
          (_, Some e) \<Rightarrow> None
        | (port, None) \<Rightarrow> Some (parts ! 0 @ '':'' @ itoa port))"

fun parse_args_from :: "string list \<Rightarrow> server_config \<Rightarrow> server_config option" where
  "parse_args_from [] c = Some c"
| "parse_args_from (a # args) c =
     (if a = ''--debug'' then parse_args_from args (c\<lparr>confDebug := True\<rparr>)
      else case args of
          [] \<Rightarrow> None
        | v # rest \<Rightarrow>
            (if a = ''--port'' then
               (case atoi v of
                  (_, Some e) \<Rightarrow> None
                | (p, None) \<Rightarrow> parse_args_from rest (c\<lparr>confPort := p\<rparr>))
             else if a = ''--replicaof'' then
               (case replicaof_addr v of
                  None \<Rightarrow> None
                | Some addr \<Rightarrow> parse_args_from rest (c\<lparr>confLeaderAddr := addr\<rparr>))
             else if a = ''--dbfilename'' then parse_args_from rest (c\<lparr>confDbFilename := v\<rparr>)
             else if a = ''--dir'' then parse_args_from rest (c\<lparr>confDir := v\<rparr>)
             else None))"

definition parseArgs :: "string list \<Rightarrow> server_config option" where
  "parseArgs args = parse_args_from args default_config"

section \<open>The initial state\<close>

text \<open>
  \<open>file\<close> is the file system (directory, name), \<open>ms\<close> the clock, \<open>replid\<close> the id
  \<open>GenerateReplId\<close> makes.
\<close>

definition boot ::
  "server_config \<Rightarrow> bool \<Rightarrow> (string \<Rightarrow> string \<Rightarrow> reader go) \<Rightarrow> uint64 \<Rightarrow> string \<Rightarrow> host option" where
  "boot conf fatal_returns file ms replid =
     (let cs = kv_set ms ''dbfilename'' (VString (confDbFilename conf)) 0
                 (kv_set ms ''dir'' (VString (confDir conf)) 0 new_kv_store) in
      case InitialiseFromRdbFile fatal_returns (file (confDir conf) (confDbFilename conf)) new_kv_store of
        None \<Rightarrow> None
      | Some st \<Rightarrow>
          (let h = init_host (confLeaderAddr conf) (confPort conf) [] st cs in
           Some (if confLeaderAddr conf = [] then h\<lparr>LeaderReplId := replid\<rparr> else h)))"

text \<open>A follower dials, shakes hands and synchronises; then its listener starts.\<close>

definition start_follower ::
  "server_config \<Rightarrow> (string \<Rightarrow> reader go) \<Rightarrow> write_errors \<Rightarrow> follower option" where
  "start_follower conf dial wfail =
     (case NewReplicationClient dial (confLeaderAddr conf) (confPort conf) of
        Ret c \<Rightarrow>
          (case SendHandshake wfail c of
             (Ret _, c1) \<Rightarrow>
               (case PSync wfail c1 of
                  (Ret _, c2) \<Rightarrow> Some (new_follower (Reader c2))
                | _ \<Rightarrow> None)
           | _ \<Rightarrow> None)
      | _ \<Rightarrow> None)"

section \<open>A started state is well formed\<close>

lemma boot_ok:
  assumes "boot conf fr file ms replid = Some h"
  shows "host_ok h" "TxQueue h = Map.empty" "LeaderAddr h = confLeaderAddr conf" "ProcessedBytes h = 0"
    "Published h = []" "expiries (ConfigStore h) = Map.empty"
    "kvalues (ConfigStore h) = [''dir'' \<mapsto> VString (confDir conf), ''dbfilename'' \<mapsto> VString (confDbFilename conf)]"
proof -
  let ?cs = "kv_set ms ''dbfilename'' (VString (confDbFilename conf)) 0
                 (kv_set ms ''dir'' (VString (confDir conf)) 0 new_kv_store)"
  obtain st where st: "InitialiseFromRdbFile fr (file (confDir conf) (confDbFilename conf)) new_kv_store = Some st"
    and h: "h = (let h = init_host (confLeaderAddr conf) (confPort conf) [] st ?cs in
       if confLeaderAddr conf = [] then h\<lparr>LeaderReplId := replid\<rparr> else h)"
    using assms by (auto simp: boot_def Let_def split: option.splits)
  have "store_ok ?cs" by (auto intro!: store_ok_set)
  then show "host_ok h" using InitialiseFromRdbFile_ok [OF st] h
    by (simp add: host_ok_def init_host_def queues_ok_def Let_def)
  show "TxQueue h = Map.empty" "LeaderAddr h = confLeaderAddr conf" "ProcessedBytes h = 0" "Published h = []"
    "expiries (ConfigStore h) = Map.empty"
    "kvalues (ConfigStore h) = [''dir'' \<mapsto> VString (confDir conf), ''dbfilename'' \<mapsto> VString (confDbFilename conf)]"
    using h by (simp_all add: init_host_def Let_def kv_set_def new_kv_store_def)
qed

section \<open>Answers that arrive one piece each\<close>

lemma read_string_refill:
  assumes "rbuf r = []" "rsrc r = s # cs" "s \<noteq> []" "length s \<le> bufsize"
  shows "read_string d r = read_string d (r\<lparr>rbuf := s, rsrc := cs\<rparr>)"
proof -
  have "fill r = r\<lparr>rbuf := s, rsrc := cs\<rparr>" using assms by (simp add: fill_def)
  then show ?thesis using assms by (simp add: read_string_def read_string_acc.simps [of d "[]" r])
qed

lemma send_piece:
  assumes "wfail (length (sent c)) = None" "LF \<notin> set s" "length (s @ CRLF @ t) \<le> bufsize"
    and "Reader c = new_reader ((s @ CRLF @ t) # cs) e"
  shows "send wfail req c = (Ret (s @ CRLF), c\<lparr>Reader := \<lparr>rbuf = t, rsrc = cs, rerrs = [e]\<rparr>,
    sent := sent c @ [as_resp_string req]\<rparr>)"
proof -
  let ?c = "c\<lparr>Reader := \<lparr>rbuf = s @ CRLF @ t, rsrc = cs, rerrs = [e]\<rparr>\<rparr>"
  have "read_string LF (Reader c) = read_string LF (Reader ?c)"
    using read_string_refill [of "Reader c" "s @ CRLF @ t" cs LF] assms(3,4) by (simp add: new_reader_def)
  then have "send wfail req c = (case send wfail req ?c of (x, c') \<Rightarrow> (x, c'))"
    using assms(1) by (simp add: send_def split: prod.splits)
  then show ?thesis using send_line_buffered [of wfail ?c s t req] assms(1,2) by simp
qed

lemma start_follower_pieces:
  assumes "dial (confLeaderAddr conf) = Ret (new_reader [''+PONG'' @ CRLF, ''+OK'' @ CRLF, ''+OK'' @ CRLF,
      s @ CRLF @ ''$88'' @ CRLF @ empty_rdb @ events] e)"
    and "\<forall>n. wfail n = None" "LF \<notin> set s" "length (s @ CRLF @ ''$88'' @ CRLF @ empty_rdb @ events) \<le> bufsize"
  shows "start_follower conf dial wfail = Some (new_follower \<lparr>rbuf = events, rsrc = [], rerrs = [e]\<rparr>)"
proof -
  let ?last = "s @ CRLF @ ''$88'' @ CRLF @ empty_rdb @ events" and ?p = "confPort conf"
  let ?ok = "''+OK'' @ CRLF"
  define c0 where "c0 = \<lparr>Reader = new_reader [''+PONG'' @ CRLF, ?ok, ?ok, ?last] e, sent = [],
    inboundPort = ?p, leader_repl_id = ''?''\<rparr>"
  define c1 where "c1 = c0\<lparr>Reader := new_reader [?ok, ?ok, ?last] e, sent := [as_resp_string ping_command]\<rparr>"
  define c2 where "c2 = c1\<lparr>Reader := new_reader [?ok, ?last] e,
    sent := sent c1 @ [as_resp_string (RespArray (replconf1 ?p))]\<rparr>"
  define c3 where "c3 = c2\<lparr>Reader := new_reader [?last] e,
    sent := sent c2 @ [as_resp_string (RespArray (replconf2 ?p))]\<rparr>"
  have piece: "send wfail req c = (Ret (l @ CRLF), c\<lparr>Reader := new_reader cs e, sent := sent c @ [as_resp_string req]\<rparr>)"
    if "Reader c = new_reader ((l @ CRLF) # cs) e" "l \<in> {''+PONG'', ''+OK''}" for c l cs req
    using send_piece [of wfail c l "[]" cs e req] that assms(2) by (auto simp: new_reader_def)
  have "sendPing wfail c0 = (Ret (), c1)"
    using piece [of c0 "''+PONG''" "[?ok, ?ok, ?last]" ping_command]
    by (simp add: sendPing_def expect_def c0_def c1_def)
  moreover have "sendReplconf1 wfail c1 = (Ret (), c2)"
    using piece [of c1 "''+OK''" "[?ok, ?last]" "RespArray (replconf1 ?p)"]
    by (simp add: sendReplconf1_def expect_def c0_def c1_def c2_def del: as_resp_string.simps)
  moreover have "sendReplconf2 wfail c2 = (Ret (), c3)"
    using piece [of c2 "''+OK''" "[?last]" "RespArray (replconf2 ?p)"]
    by (simp add: sendReplconf2_def expect_def c0_def c1_def c2_def c3_def del: as_resp_string.simps)
  ultimately have "SendHandshake wfail c0 = (Ret (), c3)" by (simp add: SendHandshake_def)
  moreover have "\<exists>c4. PSync wfail c3 = (Ret (), c4) \<and> Reader c4 = \<lparr>rbuf = events, rsrc = [], rerrs = [e]\<rparr>"
  proof -
    let ?c = "c3\<lparr>Reader := \<lparr>rbuf = ?last, rsrc = [], rerrs = [e]\<rparr>\<rparr>"
    have n: "itoa 88 = ''88''" by code_simp
    have "read_string LF (Reader c3) = read_string LF (Reader ?c)"
      using read_string_refill [of "Reader c3" ?last "[]" LF] assms(4) by (simp add: c3_def new_reader_def)
    then have "PSync wfail c3 = PSync wfail ?c"
      using assms(2) by (simp add: PSync_def send_def split: prod.splits option.splits)
    moreover have "empty_rdb \<noteq> []" using length_empty_rdb by auto
    ultimately show ?thesis
      using PSync_buffered [of wfail ?c s empty_rdb events] assms(2,3) n length_empty_rdb by simp
  qed
  ultimately show ?thesis
    using assms(1) by (auto simp: start_follower_def NewReplicationClient_def c0_def)
qed

section \<open>Properties\<close>

lemma split_replicaof:
  "CHR '' '' \<notin> set host \<Longrightarrow> split_on (CHR '' '') (host @ CHR '' '' # itoa q) = [host, itoa q]"
proof -
  have "CHR '' '' \<notin> set (itoa q)" using itoa_bytes [of "CHR '' ''" q] by (auto simp: is_digit_def)
  then show "CHR '' '' \<notin> set host \<Longrightarrow> ?thesis" by (simp add: split_on_append)
qed

text \<open>The command line a follower is started with is read as written: port, leader
  address, directory and file name.\<close>

theorem parse_args_reads_options:
  assumes "in_int64 p" "in_int64 q" "CHR '' '' \<notin> set host"
  shows "parseArgs [''--port'', itoa p, ''--replicaof'', host @ '' '' @ itoa q, ''--dir'', dir, ''--dbfilename'', file]
    = Some \<lparr>confPort = p, confLeaderAddr = host @ '':'' @ itoa q, confDebug = False, confDbFilename = file, confDir = dir\<rparr>"
  using assms split_replicaof [OF assms(3), of q]
  by (simp add: parseArgs_def default_config_def replicaof_addr_def Let_def)

theorem parse_args_reads_options_witness:
  "parseArgs [''--port'', itoa 6380, ''--replicaof'', ''localhost'' @ '' '' @ itoa 6379, ''--dir'', ''/d'', ''--dbfilename'', ''f'']
    = Some \<lparr>confPort = 6380, confLeaderAddr = ''localhost'' @ '':'' @ itoa 6379, confDebug = False,
        confDbFilename = ''f'', confDir = ''/d''\<rparr>"
  by (rule parse_args_reads_options) (simp_all add: in_int64_def)

lemma config_get:
  assumes "TxQueue h c = None" "expiries (ConfigStore h) = Map.empty" "kvalues (ConfigStore h) key = Some (VString v)"
  shows "HandleCommand sch \<lparr>ConnId = c, RespArr = map RespBulkString [''CONFIG'', ''GET'', key]\<rparr> ''CONFIG'' h
    = (reply (RespArray [RespBulkString key, RespBulkString v]), h)"
proof -
  have l: "to_lower ''CONFIG'' = ''config''" "to_lower ''GET'' = ''get''" by code_simp+
  show ?thesis using assms
    by (simp add: HandleCommand_direct dispatch_def HandleConfig_def with_ret_def bulk_at_def l kv_get_def numeral_2_eq_2)
qed

text \<open>A process that starts, from whatever file it loads, is in a well-formed state with
  no transaction open, and answers CONFIG GET with the directory and the file name it
  was given.\<close>

theorem booted_state_well_formed:
  assumes "boot conf fr file ms replid = Some h"
  shows "host_ok h \<and> TxQueue h = Map.empty
    \<and> HandleCommand sch \<lparr>ConnId = c, RespArr = map RespBulkString [''CONFIG'', ''GET'', ''dir'']\<rparr> ''CONFIG'' h
      = (reply (RespArray [RespBulkString ''dir'', RespBulkString (confDir conf)]), h)
    \<and> HandleCommand sch \<lparr>ConnId = c, RespArr = map RespBulkString [''CONFIG'', ''GET'', ''dbfilename'']\<rparr> ''CONFIG'' h
      = (reply (RespArray [RespBulkString ''dbfilename'', RespBulkString (confDbFilename conf)]), h)"
  using boot_ok [OF assms] config_get [of h c "''dir''"] config_get [of h c "''dbfilename''"]
  by (simp del: as_resp_string.simps list.map)

lemma boot_without_file:
  assumes "file (confDir conf) (confDbFilename conf) = Err err_not_exist"
  shows "\<exists>h. boot conf fr file ms replid = Some h \<and> Store h = new_kv_store
    \<and> LeaderReplId h = (if confLeaderAddr conf = [] then replid else [])"
  using assms by (simp add: boot_def InitialiseFromRdbFile_def ReadRdbFromFile_def init_host_def Let_def)

theorem booted_state_well_formed_witness:
  "\<exists>h. boot default_config False (\<lambda>d f. Err err_not_exist) 0 ''id'' = Some h \<and> host_ok h
    \<and> HandleCommand still_env \<lparr>ConnId = 7, RespArr = map RespBulkString [''CONFIG'', ''GET'', ''dir'']\<rparr> ''CONFIG'' h
      = (reply (RespArray [RespBulkString ''dir'', RespBulkString ''/tmp/redis-files/'']), h)"
proof -
  obtain h where "boot default_config False (\<lambda>d f. Err err_not_exist) 0 ''id'' = Some h"
    using boot_without_file [of "\<lambda>d f. Err err_not_exist" default_config False 0 "''id''"] by auto
  with booted_state_well_formed [OF this, of still_env 7] show ?thesis
    by (auto simp: default_config_def simp del: as_resp_string.simps)
qed

text \<open>C4. Replication end to end: a leader starts with no expiries in its store and a replication id
  without a line feed, and answers SETs without expiry and INCRs, of at most three words, none
  of them empty (a SET of an empty value is published too, and crashes the follower). A
  follower that starts with the same data dials it, its writes succeed, and it gets the
  handshake's answers one piece each and then the PSYNC answer together with the events the
  leader published, in one piece that fits its buffer of 4096 bytes. The follower starts its
  listener, which applies all of them and ends with exactly the leader's store.\<close>

theorem replication_end_to_end:
  assumes "boot lconf fr lfile ms replid = Some h" "confLeaderAddr lconf = []" "LF \<notin> set replid"
    and "list_all plain_write reqs" "serve_all sch 0 c (map request_of reqs) h = (map Reply rs, h')"
    and "boot conf fr file ms' replid' = Some g" "Store g = Store h" "expiries (Store h) = Map.empty"
    and "HandleCommand sch2 \<lparr>ConnId = c2, RespArr = psync_request ''?''\<rparr> ''PSYNC'' h = (Streaming w, h)"
    and "dial (confLeaderAddr conf) = Ret (new_reader [''+PONG'' @ CRLF, ''+OK'' @ CRLF, ''+OK'' @ CRLF,
        w @ concat (Published h')] EOF)"
    and "length (w @ concat (Published h')) \<le> bufsize" "\<forall>n. wfail n = None"
  shows "\<exists>f f' g'. start_follower conf dial wfail = Some f
    \<and> replication_run sch' ids 0 f g = Some (Stop, f', g') \<and> Store g' = Store h'"
proof -
  let ?r = "\<lparr>rbuf = concat (Published h'), rsrc = [], rerrs = [EOF]\<rparr>"
  note lead = boot_ok [OF assms(1)] and fol = boot_ok [OF assms(6)]
  have id: "LeaderReplId h = replid"
    using assms(1,2) by (auto simp: boot_def init_host_def Let_def split: option.splits)
  have w: "w = (''+FULLRESYNC '' @ LeaderReplId h @ '' 0'') @ CRLF @ ''$88'' @ CRLF @ empty_rdb"
    using leader_psync [of h c2 sch2 "psync_request ''?''"] assms(9) lead(2) by simp
  have "start_follower conf dial wfail = Some (new_follower ?r)"
    using start_follower_pieces [of dial conf "''+FULLRESYNC '' @ LeaderReplId h @ '' 0''" "concat (Published h')" EOF wfail]
      assms(3,10,11,12) w id by simp
  moreover have "\<exists>f' g'. replication_run sch' ids 0 (new_follower ?r) g = Some (Stop, f', g') \<and> Store g' = Store h'"
    using assms(11) lead(2,5) fol(2,4)
    by (intro replica_follows [OF assms(4) _ assms(8) _ assms(5,7)]) auto
  ultimately show ?thesis by blast
qed

theorem replication_end_to_end_witness:
  "\<exists>h h' g f f' g'. boot default_config False (\<lambda>d f. Err err_not_exist) 0 ''id'' = Some h
    \<and> snd (serve_all still_env 0 7 (map request_of [incr_request]) h) = h'
    \<and> start_follower (default_config\<lparr>confLeaderAddr := ''l:1''\<rparr>)
        (\<lambda>_. Ret (new_reader [''+PONG'' @ CRLF, ''+OK'' @ CRLF, ''+OK'' @ CRLF,
          (''+FULLRESYNC id 0'' @ CRLF @ ''$88'' @ CRLF @ empty_rdb) @ concat (Published h')] EOF)) (\<lambda>_. None) = Some f
    \<and> replication_run still_env (\<lambda>_. 9) 0 f g = Some (Stop, f', g')
    \<and> Store g' = Store h' \<and> kvalues (Store h') ''k'' = Some (VString ''1'')"
proof -
  let ?conf = "default_config\<lparr>confLeaderAddr := ''l:1''\<rparr>" and ?file = "\<lambda>d f. Err err_not_exist :: reader go"
  obtain h where h: "boot default_config False ?file 0 ''id'' = Some h" "Store h = new_kv_store" "LeaderReplId h = ''id''"
    using boot_without_file [of ?file default_config False 0 "''id''"] by (auto simp: default_config_def)
  obtain g where g: "boot ?conf False ?file 0 ''x'' = Some g" "Store g = new_kv_store"
    using boot_without_file [of ?file ?conf False 0 "''x''"] by auto
  note lead = boot_ok [OF h(1)]
  obtain h' where h': "serve_all still_env 0 7 (map request_of [incr_request]) h = (map Reply ['':1'' @ CRLF], h')"
    "Published h' = [as_resp_string (RespArray incr_request)]" "kvalues (Store h') ''k'' = Some (VString ''1'')"
    using incr_new_key [of h 7 still_env 0] lead(2,5) h(2) by auto
  let ?w = "''+FULLRESYNC id 0'' @ CRLF @ ''$88'' @ CRLF @ empty_rdb"
  have w: "HandleCommand still_env \<lparr>ConnId = 3, RespArr = psync_request ''?''\<rparr> ''PSYNC'' h = (Streaming ?w, h)"
    using leader_psync [of h 3] lead(2) h(3) by simp
  have "length (?w @ concat (Published h')) \<le> bufsize"
    using h'(2) incr_request(2) length_empty_rdb by (simp del: as_resp_string.simps)
  then obtain f f' g' where "start_follower ?conf (\<lambda>_. Ret (new_reader [''+PONG'' @ CRLF, ''+OK'' @ CRLF, ''+OK'' @ CRLF,
          ?w @ concat (Published h')] EOF)) (\<lambda>_. None) = Some f"
    "replication_run still_env (\<lambda>_. 9) 0 f g = Some (Stop, f', g')" "Store g' = Store h'"
    using replication_end_to_end [OF h(1) _ _ incr_request(1) h'(1) g(1) _ _ w, of
        "\<lambda>_. Ret (new_reader [''+PONG'' @ CRLF, ''+OK'' @ CRLF, ''+OK'' @ CRLF, ?w @ concat (Published h')] EOF)"
        "\<lambda>_. None" still_env "\<lambda>_. 9"] h(2) g(2)
    by (auto simp: default_config_def new_kv_store_def simp del: as_resp_string.simps append.simps)
  then show ?thesis using h(1) h'(1,3) by (intro exI) (auto simp del: as_resp_string.simps append.simps)
qed

end
