(* ===== verification/Goroutines.thy ===== *)
theory Goroutines
  imports Transactions
begin

text \<open>
  The handlers as the goroutines run them: not in one step, but as a sequence of operations
  on the shared state, each of which holds a lock (redis-go/app/store/kv_store.go,
  redis-go/app/cmd/main.go) or sends on the channel of events. Between two operations the
  other goroutines can run. A \<open>prog\<close> is what is left of a command: its end, or the next
  operation, which reads the clock anew. The handlers of \<open>Cmd_Handlers\<close> and the dispatcher
  of \<open>Commands\<close> are these programs run without an interruption (\<open>alone_HandleCommand\<close>).
\<close>

datatype prog = Finished outcome | Atomic "env \<Rightarrow> host \<Rightarrow> prog \<times> host"

primrec alone :: "prog \<Rightarrow> env \<Rightarrow> host \<Rightarrow> outcome \<times> host" where
  "alone (Finished out) = (\<lambda>e h. (out, h))"
| "alone (Atomic f) = (\<lambda>e h. case map_prod alone id (f e h) of (run, h1) \<Rightarrow> run e h1)"

primrec then_do :: "prog \<Rightarrow> (outcome \<Rightarrow> prog) \<Rightarrow> prog" where
  "then_do (Finished out) = (\<lambda>k. k out)"
| "then_do (Atomic f) = (\<lambda>k. Atomic (\<lambda>e h. case map_prod then_do id (f e h) of (cont, h1) \<Rightarrow> (cont k, h1)))"

lemma alone_Atomic [simp]: "alone (Atomic f) e h = (case f e h of (p, h1) \<Rightarrow> alone p e h1)"
  by (simp split: prod.splits)

lemma then_do_Atomic [simp]:
  "then_do (Atomic f) k = Atomic (\<lambda>e h. case f e h of (p, h1) \<Rightarrow> (then_do p k, h1))"
  by (simp add: case_prod_unfold)

declare alone.simps(2) [simp del] then_do.simps(2) [simp del]

lemma alone_then_do: "alone (then_do p k) e h = (case alone p e h of (out, h1) \<Rightarrow> alone (k out) e h1)"
proof (induction p arbitrary: h)
  case (Atomic f)
  obtain p h1 where f: "f e h = (p, h1)" by fastforce
  then have "p \<in> Basic_BNFs.fsts (f e h)" by (simp add: fsts.intros)
  from Atomic [OF rangeI rangeI this, of h1] f show ?case by (simp split: prod.splits)
qed simp

section \<open>The handlers, operation by operation\<close>

definition one_step :: "(env \<Rightarrow> host \<Rightarrow> outcome \<times> host) \<Rightarrow> prog" where
  "one_step f = Atomic (\<lambda>e h. map_prod Finished id (f e h))"

definition then_ret :: "'a go \<Rightarrow> ('a \<Rightarrow> prog) \<Rightarrow> prog" where
  "then_ret m f = (case m of Ret a \<Rightarrow> f a | Err e \<Rightarrow> Finished (Fails e) | Panic \<Rightarrow> Finished Crash)"

text \<open>The send on the channel of events, and the answer after it.\<close>

definition publishing :: "resp list \<Rightarrow> resp \<Rightarrow> prog" where
  "publishing args v = Atomic (\<lambda>e h. (Finished (reply v), publish (as_resp_string (RespArray args)) h))"

definition set_prog :: "resp list \<Rightarrow> prog" where
  "set_prog args =
     then_ret (bulk_at args 1) (\<lambda>key.
     then_ret (bulk_at args 2) (\<lambda>val.
     then_ret (set_expiry args) (\<lambda>expiry.
       Atomic (\<lambda>e h. (publishing args (RespSimpleString ''OK''),
         h\<lparr>Store := kv_set (now e) key (VString val) expiry (Store h)\<rparr>)))))"

text \<open>INCR reads under one lock and writes under another.\<close>

definition store_number :: "resp list \<Rightarrow> string \<Rightarrow> int \<Rightarrow> prog" where
  "store_number args key newval =
     Atomic (\<lambda>e h. (publishing args (RespInteger newval),
       h\<lparr>Store := kv_set (now e) key (VString (itoa newval)) 0 (Store h)\<rparr>))"

definition incr_prog :: "resp list \<Rightarrow> prog" where
  "incr_prog args =
     then_ret (bulk_at args 1) (\<lambda>key.
       Atomic (\<lambda>e h. case kv_get (now e) key (Store h) of ((val, exists), s) \<Rightarrow>
         (if \<not> exists then store_number args key 1
          else (case val of
                  Some (VString v) \<Rightarrow>
                    (case atoi v of
                       (_, Some _) \<Rightarrow> Finished (reply (RespError ''ERR value is not an integer or out of range''))
                     | (intval, None) \<Rightarrow> store_number args key (wrap_int (intval + 1)))
                | _ \<Rightarrow> Finished (Fails (ErrorString ''unexpected value type in incr''))),
          h\<lparr>Store := s\<rparr>)))"

fun xread_steps :: "string list \<Rightarrow> string list \<Rightarrow> resp list \<Rightarrow> prog" where
  "xread_steps [] ranges arrs = Finished (reply (RespArray arrs))"
| "xread_steps (key # keys) [] arrs = Finished Crash"
| "xread_steps (key # keys) (rng # ranges) arrs =
     Atomic (\<lambda>e h.
       (then_ret (XReadStream key rng (Store h)) (\<lambda>r.
        then_ret (go_mapM (entry_resp (order e)) r) (\<lambda>result.
          xread_steps keys ranges (arrs @ [RespArray [RespBulkString key, RespArray result]]))), h))"

definition xread_prog :: "resp list \<Rightarrow> prog" where
  "xread_prog args =
     (let count = (length args - 2) div 2 in
     then_ret (go_mapM (bulk_at args) [2..<2 + count]) (\<lambda>keys.
     then_ret (go_mapM (bulk_at args) [count + 2..<length args]) (\<lambda>ranges.
       xread_steps keys ranges [])))"

definition discard_prog :: "uuid \<Rightarrow> prog" where
  "discard_prog c =
     Atomic (\<lambda>e h.
       (if \<not> IsInTransaction h c then Finished (reply (RespError ''ERR DISCARD without MULTI''))
        else Atomic (\<lambda>e h. (Finished (reply ok_response), snd (ConsumeTransactionQueue c h))), h))"

text \<open>EXEC runs its commands one after the other, with nothing that keeps other goroutines
  out between two of them.\<close>

fun exec_steps :: "(handle_context \<Rightarrow> string \<Rightarrow> prog) \<Rightarrow> queued_command list \<Rightarrow> string list \<Rightarrow> prog" where
  "exec_steps inner [] result = Finished (Reply (resp_arr_string_from_strings result))"
| "exec_steps inner (c # queue) result =
     then_do (inner \<lparr>ConnId = 0, RespArr = qarr c\<rparr> (qcommand c)) (\<lambda>out.
       case out of
         Reply res \<Rightarrow> exec_steps inner queue (result @ [res])
       | Fails err \<Rightarrow> Finished (Fails (Wrapped ''got error whilst executing transaction: '' err))
       | _ \<Rightarrow> Finished out)"

definition exec_prog :: "(handle_context \<Rightarrow> string \<Rightarrow> prog) \<Rightarrow> uuid \<Rightarrow> prog" where
  "exec_prog inner c =
     Atomic (\<lambda>e h.
       (if \<not> IsInTransaction h c then Finished (reply (RespError ''ERR EXEC without MULTI''))
        else Atomic (\<lambda>e h. case ConsumeTransactionQueue c h of (queue, h1) \<Rightarrow> (exec_steps inner queue [], h1)), h))"

section \<open>The dispatcher\<close>

definition dispatch_prog :: "(uuid \<Rightarrow> prog) \<Rightarrow> handle_context \<Rightarrow> string \<Rightarrow> prog" where
  "dispatch_prog exec ctx content =
     (let args = RespArr ctx in
      if content = ''config'' then one_step (\<lambda>e. HandleConfig e args)
      else if content = ''discard'' then discard_prog (ConnId ctx)
      else if content = ''echo'' then one_step (\<lambda>e. HandleEcho args)
      else if content = ''exec'' then exec (ConnId ctx)
      else if content = ''get'' then one_step (\<lambda>e. HandleGet e args)
      else if content = ''incr'' then incr_prog args
      else if content = ''info'' then one_step (\<lambda>e. HandleInfo)
      else if content = ''keys'' then one_step HandleKeys
      else if content = ''multi'' then one_step (\<lambda>e. HandleMulti ctx)
      else if content = ''ping'' then one_step (\<lambda>e. HandlePing)
      else if content = ''psync'' then one_step (\<lambda>e. HandlePSync)
      else if content = ''replconf'' then one_step (\<lambda>e. HandleReplconf args)
      else if content = ''set'' then set_prog args
      else if content = ''type'' then one_step (\<lambda>e. HandleType e args)
      else if content = ''wait'' then one_step (\<lambda>e. HandleWait)
      else if content = ''xadd'' then one_step (\<lambda>e. HandleXAdd e args)
      else if content = ''xrange'' then one_step (\<lambda>e. HandleXRange e args)
      else if content = ''xread'' then xread_prog args
      else Finished Crash)"

text \<open>The transaction map is looked up in one operation and changed in a later one.\<close>

definition command_prog :: "(uuid \<Rightarrow> prog) \<Rightarrow> handle_context \<Rightarrow> string \<Rightarrow> prog" where
  "command_prog exec ctx content0 =
     (let content = to_lower content0 in
      Atomic (\<lambda>e h.
        (if IsInTransaction h (ConnId ctx) \<and> content \<noteq> ''exec'' \<and> content \<noteq> ''discard''
         then Atomic (\<lambda>e h. (Finished (reply (RespSimpleString ''QUEUED'')),
                snd (QueueCommand (ConnId ctx) content (RespArr ctx) h)))
         else dispatch_prog exec ctx content, h)))"

primrec command_depth :: "nat \<Rightarrow> handle_context \<Rightarrow> string \<Rightarrow> prog" where
  "command_depth 0 = command_prog (\<lambda>c. Finished TooDeep)"
| "command_depth (Suc n) = command_prog (exec_prog (command_depth n))"

definition goroutine_of :: "handle_context \<Rightarrow> string \<Rightarrow> prog" where
  "goroutine_of = command_depth 1"

section \<open>Without an interruption\<close>

lemma alone_then_ret: "alone (then_ret m f) e h = with_ret m h (\<lambda>a. alone (f a) e h)"
  by (cases m) (simp_all add: then_ret_def with_ret_def)

lemma alone_one_step [simp]: "alone (one_step f) e h = f e h"
  by (cases "f e h") (simp add: one_step_def)

lemma alone_set: "alone (set_prog args) e h = HandleSet e args h"
  by (simp add: set_prog_def HandleSet_def alone_then_ret publishing_def del: as_resp_string.simps)

lemma alone_store_number:
  "alone (store_number args key n) e h = (reply (RespInteger n), publish (as_resp_string (RespArray args))
     (h\<lparr>Store := kv_set (now e) key (VString (itoa n)) 0 (Store h)\<rparr>))"
  by (simp add: store_number_def publishing_def del: as_resp_string.simps)

lemma alone_incr: "alone (incr_prog args) e h = HandleIncr e args h"
proof -
  have "alone (incr_prog args) e h = HandleIncr e args h" if key: "bulk_at args 1 = Ret key" for key
  proof -
    obtain val exists s where get: "kv_get (now e) key (Store h) = ((val, exists), s)" by (metis prod.collapse)
    show ?thesis
    proof (cases "exists \<and> (\<exists>v. val = Some (VString v))")
      case True
      then obtain v where "exists" "val = Some (VString v)" by blast
      then show ?thesis
        by (cases "atoi v"; cases "snd (atoi v)")
           (simp_all add: incr_prog_def HandleIncr_def then_ret_def with_ret_def key [unfolded One_nat_def] get
             alone_store_number del: as_resp_string.simps)
    next
      case False
      then show ?thesis
        by (auto simp: incr_prog_def HandleIncr_def then_ret_def with_ret_def key [unfolded One_nat_def] get
             alone_store_number simp del: as_resp_string.simps split: option.splits go_value.splits)
    qed
  qed
  then show ?thesis by (cases "bulk_at args 1") (simp_all add: incr_prog_def HandleIncr_def then_ret_def with_ret_def)
qed

lemma alone_xread_steps:
  "alone (xread_steps keys ranges arrs) e h
    = with_ret (xread_loop (order e) (Store h) keys ranges) h (\<lambda>rest. (reply (RespArray (arrs @ rest)), h))"
proof (induction keys ranges arrs rule: xread_steps.induct)
  case (3 key keys rng ranges arrs)
  show ?case
  proof (cases "XReadStream key rng (Store h)")
    case (Ret r)
    then show ?thesis
    proof (cases "go_mapM (entry_resp (order e)) r")
      case (Ret result)
      then show ?thesis using 3 \<open>XReadStream key rng (Store h) = Ret r\<close>
        by (cases "xread_loop (order e) (Store h) keys ranges")
           (simp_all add: then_ret_def with_ret_def del: as_resp_string.simps)
    qed (simp_all add: then_ret_def with_ret_def)
  qed (simp_all add: then_ret_def with_ret_def)
qed (simp_all add: with_ret_def)

lemma alone_xread: "alone (xread_prog args) e h = HandleXRead e args h"
  by (simp add: xread_prog_def HandleXRead_def alone_then_ret alone_xread_steps Let_def)

lemma alone_discard: "alone (discard_prog (ConnId ctx)) e h = HandleDiscard ctx h"
  by (simp add: discard_prog_def HandleDiscard_def)

lemma alone_exec_steps:
  assumes "\<And>ctx s h. alone (inner ctx s) e h = inner' (\<lambda>_. e) ctx s h"
  shows "alone (exec_steps inner queue result) e h = exec_loop inner' (\<lambda>_. e) i queue result h"
  using assms by (induction queue arbitrary: i result h) (auto simp: alone_then_do split: prod.splits outcome.splits)

lemma alone_exec:
  assumes "\<And>ctx s h. alone (inner ctx s) e h = inner' (\<lambda>_. e) ctx s h"
  shows "alone (exec_prog inner (ConnId ctx)) e h = HandleExec inner' (\<lambda>_. e) ctx h"
  using alone_exec_steps [of inner e inner', OF assms]
  by (simp add: exec_prog_def HandleExec_def split: prod.splits)

lemma alone_command:
  assumes "\<And>h. alone (exec (ConnId ctx)) e h = exec' (\<lambda>_. e) ctx h"
  shows "alone (command_prog exec ctx s) e h = run_command exec' (\<lambda>_. e) ctx s h"
  using assms
  by (simp add: command_prog_def run_command_def dispatch_prog_def dispatch_def Let_def alone_set alone_incr
      alone_xread alone_discard)

lemma alone_command_depth: "alone (command_depth n ctx s) e h = handle_depth n (\<lambda>_. e) ctx s h"
proof (induction n arbitrary: ctx s h)
  case 0
  then show ?case by (simp add: handle_depth.simps alone_command [where exec' = "\<lambda>sch ctx h. (TooDeep, h)"])
next
  case (Suc n)
  have "alone (exec_prog (command_depth n) (ConnId ctx)) e h = HandleExec (handle_depth n) (\<lambda>_. e) ctx h" for h
    using alone_exec [where inner = "command_depth n" and inner' = "handle_depth n" and e = e] Suc by simp
  then show ?case by (simp add: handle_depth.simps alone_command [where exec' = "HandleExec (handle_depth n)"])
qed

declare command_depth.simps [simp del]

lemma alone_goroutine: "alone (goroutine_of ctx s) e h = HandleCommand (\<lambda>_. e) ctx s h"
  by (simp add: goroutine_of_def HandleCommand_def alone_command_depth)

section \<open>What an operation may change\<close>

text \<open>\<open>safe c p\<close>: whatever other goroutines do in between, every operation of \<open>p\<close> keeps a
  well-formed state well formed and touches no transaction queue but that of \<open>c\<close> and of the
  zero UUID.\<close>

definition others_kept :: "uuid \<Rightarrow> host \<Rightarrow> host \<Rightarrow> bool" where
  "others_kept c h h1 \<longleftrightarrow> (\<forall>d. d \<noteq> c \<longrightarrow> d \<noteq> 0 \<longrightarrow> TxQueue h1 d = TxQueue h d)"

inductive safe :: "uuid \<Rightarrow> prog \<Rightarrow> bool" for c :: uuid where
  ended: "out \<noteq> TooDeep \<Longrightarrow> safe c (Finished out)"
| atomic: "(\<And>e h p h1. host_ok h \<Longrightarrow> f e h = (p, h1) \<Longrightarrow> safe c p) \<Longrightarrow>
    (\<And>e h p h1. host_ok h \<Longrightarrow> f e h = (p, h1) \<Longrightarrow> host_ok h1 \<and> others_kept c h h1) \<Longrightarrow> safe c (Atomic f)"

inductive_cases safe_AtomicE: "safe c (Atomic f)"
inductive_simps safe_Done [simp]: "safe c (Finished out)"

lemma others_kept_refl [simp]: "others_kept c h h"
  by (simp add: others_kept_def)

lemma others_kept_same [intro]: "TxQueue h1 = TxQueue h \<Longrightarrow> others_kept c h h1"
  by (simp add: others_kept_def)

lemma safe_one_step:
  assumes "\<And>e h. host_ok h \<Longrightarrow> host_ok (snd (f e h)) \<and> others_kept c h (snd (f e h))" "\<And>e h. fst (f e h) \<noteq> TooDeep"
  shows "safe c (one_step f)"
  unfolding one_step_def
proof (rule safe.atomic)
  fix e h p h1 assume ok: "host_ok h" and "map_prod Finished id (f e h) = (p, h1)"
  then obtain out where f: "f e h = (out, h1)" "p = Finished out" by (cases "f e h") auto
  then show "safe c p" "host_ok h1 \<and> others_kept c h h1"
    using assms(1) [OF ok, of e] assms(2) [of e h] by auto
qed

lemma safe_then_ret: "(\<And>a. m = Ret a \<Longrightarrow> safe c (f a)) \<Longrightarrow> safe c (then_ret m f)"
  by (cases m) (auto simp: then_ret_def)

lemma safe_then_do: "safe 0 p \<Longrightarrow> (\<And>out. out \<noteq> TooDeep \<Longrightarrow> safe c (k out)) \<Longrightarrow> safe c (then_do p k)"
proof (induction rule: safe.induct)
  case (atomic f)
  then show ?case
    by (auto intro!: safe.atomic split: prod.splits) (auto simp: others_kept_def)
qed simp

lemma safe_publishing: "safe c (publishing args v)"
  by (auto simp: publishing_def intro!: safe.atomic)

lemma safe_set: "safe c (set_prog args)"
  by (auto simp: set_prog_def safe_publishing intro!: safe_then_ret safe.atomic host_ok_set)

lemma safe_store_number: "safe c (store_number args key n)"
  by (auto simp: store_number_def safe_publishing intro!: safe.atomic host_ok_set)

lemma safe_incr: "safe c (incr_prog args)"
  by (auto simp: incr_prog_def safe_store_number intro!: safe_then_ret safe.atomic
      split: prod.splits option.splits go_value.splits)

lemma safe_xread_steps: "safe c (xread_steps keys ranges arrs)"
  by (induction keys ranges arrs rule: xread_steps.induct) (auto intro!: safe.atomic safe_then_ret)

lemma safe_xread: "safe c (xread_prog args)"
  by (auto simp: xread_prog_def Let_def safe_xread_steps intro!: safe_then_ret)

lemma consume_kept: "others_kept c h (snd (ConsumeTransactionQueue c h))"
  by (simp add: others_kept_def ConsumeTransactionQueue_def)

lemma safe_discard: "safe c (discard_prog c)"
  by (auto simp: discard_prog_def consume_kept intro!: safe.atomic host_ok_Consume)

lemma safe_exec_steps:
  assumes "\<And>d ctx. d \<in> set queue \<Longrightarrow> safe (ConnId ctx) (inner ctx (qcommand d))"
  shows "safe c (exec_steps inner queue result)"
  using assms
proof (induction queue arbitrary: result)
  case (Cons d queue)
  have "safe 0 (inner \<lparr>ConnId = 0, RespArr = qarr d\<rparr> (qcommand d))" using Cons.prems [of d "\<lparr>ConnId = 0, RespArr = qarr d\<rparr>"] by simp
  then show ?case using Cons by (auto intro!: safe_then_do split: outcome.splits)
qed simp

lemma safe_readonly:
  "(\<And>e h. snd (f e h) = h) \<Longrightarrow> (\<And>e h. fst (f e h) \<noteq> TooDeep) \<Longrightarrow> safe c (one_step f)"
  by (simp add: safe_one_step)

lemma safe_keeping_queues:
  "(\<And>e h. host_ok h \<Longrightarrow> host_ok (snd (f e h))) \<Longrightarrow> (\<And>e h. TxQueue (snd (f e h)) = TxQueue h) \<Longrightarrow>
   (\<And>e h. fst (f e h) \<noteq> TooDeep) \<Longrightarrow> safe c (one_step f)"
  by (simp add: safe_one_step others_kept_def)

lemma safe_handlers:
  "safe c (one_step (\<lambda>e. HandleEcho args))" "safe c (one_step (\<lambda>e. HandleInfo))" "safe c (one_step HandleKeys)"
  "safe c (one_step (\<lambda>e. HandlePing))" "safe c (one_step (\<lambda>e. HandlePSync))"
  "safe c (one_step (\<lambda>e. HandleReplconf args))" "safe c (one_step (\<lambda>e. HandleWait))"
  "safe c (one_step (\<lambda>e. HandleXRange e args))" "safe c (one_step (\<lambda>e. HandleConfig e args))"
  "safe c (one_step (\<lambda>e. HandleGet e args))" "safe c (one_step (\<lambda>e. HandleType e args))"
  "safe c (one_step (\<lambda>e. HandleXAdd e args))"
  by (rule safe_readonly safe_keeping_queues;
      simp add: readonly_handlers handlers_not_TooDeep store_handlers_not_TooDeep handlers_ok handlers_TxQueue)+

lemma begin_kept: "others_kept c h (BeginTransaction c h)"
  by (simp add: others_kept_def BeginTransaction_def)

lemma safe_multi: "safe (ConnId ctx) (one_step (\<lambda>e. HandleMulti ctx))"
  by (rule safe_one_step) (simp_all add: HandleMulti_def host_ok_Begin begin_kept)

lemma safe_dispatch:
  assumes "s = ''exec'' \<Longrightarrow> safe (ConnId ctx) (exec (ConnId ctx))"
  shows "safe (ConnId ctx) (dispatch_prog exec ctx s)"
  using assms safe_handlers safe_multi by (simp add: dispatch_prog_def Let_def safe_set safe_incr safe_xread safe_discard)

lemma queue_kept: "others_kept c h (snd (QueueCommand c s args h))"
  by (simp add: others_kept_def QueueCommand_def split: option.splits)

lemma safe_command:
  assumes "to_lower s = ''exec'' \<Longrightarrow> safe (ConnId ctx) (exec (ConnId ctx))"
  shows "safe (ConnId ctx) (command_prog exec ctx s)"
proof -
  let ?s = "to_lower s"
  have "queueable \<lparr>qcommand = ?s, qarr = a\<rparr>" if "?s \<noteq> ''exec''" "?s \<noteq> ''discard''" for a
    using that by (simp add: queueable_def)
  then show ?thesis using safe_dispatch [of ?s ctx exec] assms
    by (auto simp: command_prog_def Let_def queue_kept intro!: safe.atomic host_ok_Queue)
qed

lemma goroutine_safe: "safe (ConnId ctx) (goroutine_of ctx s)"
proof -
  have inner: "safe (ConnId ctx) (command_depth 0 ctx (qcommand d))" if "queueable d" for d ctx
    using that by (auto simp: queueable_def command_depth.simps intro!: safe_command)
  have "safe c (exec_prog (command_depth 0) c)" for c
  proof -
    have "safe c (exec_steps (command_depth 0) queue [])" "host_ok h1" "others_kept c h h1"
      if "host_ok h" "ConsumeTransactionQueue c h = (queue, h1)" for h queue h1
      using that queues_ok_Consume [of h c] host_ok_Consume [of h c] consume_kept [of c h] inner
      by (auto simp: host_ok_def list_all_iff intro!: safe_exec_steps)
    then show ?thesis by (auto simp: exec_prog_def intro!: safe.atomic split: prod.splits)
  qed
  then show ?thesis by (simp add: goroutine_of_def command_depth.simps safe_command)
qed

end
