(* ===== verification/Redis_Process.thy ===== *)
theory Redis_Process
  imports Goroutines Redis_Server
begin

text \<open>
  A whole redis process (\<open>main\<close> of redis-go/app/server.go): how it starts, and the step
  relation of its goroutines over the shared state: the accept loop, one goroutine per
  connection, and on a follower the replication listener. One step is one operation of
  \<open>Goroutines\<close>, so commands of different connections interleave, between the reading and the
  writing of an INCR and between two commands of an EXEC. A panic or \<open>os.Exit\<close> ends the
  process (\<open>up\<close> is \<open>False\<close>), and no step leads on.

  \<open>drawn\<close> is the set of UUIDs handed out so far: a new one is different from all of them and
  from the zero UUID. The bytes a client will send are given when it connects.
\<close>

section \<open>State\<close>

record worker =
  peer :: connection
  task :: "prog option"

text \<open>The listener's request is its name and words and what is left of the command; \<open>mark\<close> is
  the count of processed bytes from before the request was read.\<close>

record listener =
  follows :: follower
  mark :: int
  turn_id :: uuid
  handling :: "(string \<times> resp list \<times> prog) option"

record process =
  shared :: host
  workers :: "worker list"
  link :: "listener option"
  drawn :: "uuid set"
  up :: bool

section \<open>Starting\<close>

text \<open>What \<open>main\<close> takes from outside: the files, the clock, the id it draws, the network.\<close>

record machine =
  files :: "string \<Rightarrow> string \<Rightarrow> reader go"
  clock :: uint64
  new_id :: string
  fatal_returns :: bool
  dials :: "string \<Rightarrow> reader go"
  write_fails :: write_errors
  listens :: "string \<Rightarrow> bool"

definition link_start :: "machine \<Rightarrow> server_config \<Rightarrow> listener option option" where
  "link_start m conf =
     (if confLeaderAddr conf = [] then Some None
      else map_option (\<lambda>f. Some \<lparr>follows = f, mark = 0, turn_id = 0, handling = None\<rparr>)
             (start_follower conf (dials m) (write_fails m)))"

definition redis_main :: "machine \<Rightarrow> string list \<Rightarrow> process option" where
  "redis_main m args =
     (case parseArgs args of
        None \<Rightarrow> None
      | Some conf \<Rightarrow>
          (case boot conf (fatal_returns m) (files m) (clock m) (new_id m) of
             None \<Rightarrow> None
           | Some h \<Rightarrow>
               (case link_start m conf of
                  None \<Rightarrow> None
                | Some l \<Rightarrow>
                    if listens m (''0.0.0.0:'' @ itoa (confPort conf))
                    then Some \<lparr>shared = h, workers = [], link = l, drawn = {}, up = True\<rparr>
                    else None)))"

section \<open>The goroutine of a connection\<close>

definition take_request :: "connection \<Rightarrow> worker" where
  "take_request c =
     (case ParseServerCommand (clexer c) of
        (Err e, l) \<Rightarrow> \<lparr>peer = c\<lparr>clexer := l, status := Closed\<rparr>, task = None\<rparr>
      | (Panic, l) \<Rightarrow> \<lparr>peer = c\<lparr>clexer := l, status := Crashed\<rparr>, task = None\<rparr>
      | (Ret (name, arr), l) \<Rightarrow>
          \<lparr>peer = c\<lparr>clexer := l\<rparr>, task = Some (goroutine_of \<lparr>ConnId = ident c, RespArr = arr\<rparr> name)\<rparr>)"

definition end_request :: "outcome \<Rightarrow> connection \<Rightarrow> worker" where
  "end_request out c =
     \<lparr>peer = (case out of
        Reply res \<Rightarrow> c\<lparr>written := written c @ res\<rparr>
      | Fails err \<Rightarrow> c\<lparr>status := Closed\<rparr>
      | Crash \<Rightarrow> c\<lparr>status := Crashed\<rparr>
      | Streaming w \<Rightarrow> c\<lparr>written := written c @ w, status := Replica\<rparr>
      | TooDeep \<Rightarrow> c\<lparr>status := CutOff\<rparr>), task = None\<rparr>"

definition worker_turn :: "env \<Rightarrow> worker \<Rightarrow> host \<Rightarrow> worker \<times> host" where
  "worker_turn e w h =
     (case task w of
        None \<Rightarrow> (take_request (peer w), h)
      | Some (Finished out) \<Rightarrow> (end_request out (peer w), h)
      | Some (Atomic f) \<Rightarrow> (case f e h of (q, h1) \<Rightarrow> (w\<lparr>task := Some q\<rparr>, h1)))"

section \<open>The replication listener\<close>

text \<open>The listener's next state, or the end of its goroutine, or of the process.\<close>

datatype link_state = Listens listener | Ended | Fatal

definition link_receive :: "uuid \<Rightarrow> listener \<Rightarrow> host \<Rightarrow> link_state" where
  "link_receive u l h =
     (case ParseServerCommand (flexer (follows l)) of
        (Err e, lx) \<Rightarrow>
          (if e = EOF then Ended else Listens (l\<lparr>follows := (follows l)\<lparr>flexer := lx\<rparr>, mark := ProcessedBytes h\<rparr>))
      | (Panic, lx) \<Rightarrow> Fatal
      | (Ret (name, arr), lx) \<Rightarrow>
          Listens \<lparr>follows = (follows l)\<lparr>flexer := lx\<rparr>, mark = ProcessedBytes h, turn_id = u,
            handling = Some (name, arr, goroutine_of \<lparr>ConnId = u, RespArr = arr\<rparr> name)\<rparr>)"

definition link_answer :: "string \<Rightarrow> resp list \<Rightarrow> outcome \<Rightarrow> listener \<Rightarrow> host \<Rightarrow> link_state \<times> host" where
  "link_answer name arr out l h =
     (let f = follows l in
      case out of
        Fails err \<Rightarrow> (Listens (l\<lparr>handling := None\<rparr>), h)
      | Crash \<Rightarrow> (Fatal, h)
      | Streaming w \<Rightarrow> (Ended, h)
      | TooDeep \<Rightarrow> (Ended, h)
      | Reply res \<Rightarrow>
          (case wants_answer name arr of
             Ret w \<Rightarrow> (Listens (l\<lparr>follows := (if w then f\<lparr>fwritten := fwritten f @ res\<rparr> else f), handling := None\<rparr>),
               AppendProcessedBytes (ByteCounter (flexer f) - mark l) h)
           | _ \<Rightarrow> (Fatal, h)))"

definition link_turn :: "env \<Rightarrow> uuid \<Rightarrow> listener \<Rightarrow> host \<Rightarrow> link_state \<times> host" where
  "link_turn e u l h =
     (case handling l of
        None \<Rightarrow> (link_receive u l h, h)
      | Some (name, arr, Finished out) \<Rightarrow> link_answer name arr out l h
      | Some (name, arr, Atomic f) \<Rightarrow>
          (case f e h of (q, h1) \<Rightarrow> (Listens (l\<lparr>handling := Some (name, arr, q)\<rparr>), h1)))"

section \<open>Steps of the process\<close>

definition set_worker :: "nat \<Rightarrow> worker \<times> host \<Rightarrow> process \<Rightarrow> process" where
  "set_worker i wh p = p\<lparr>shared := snd wh, workers := (workers p)[i := fst wh],
     up := (status (peer (fst wh)) \<noteq> Crashed)\<rparr>"

definition set_link :: "link_state \<times> host \<Rightarrow> process \<Rightarrow> process" where
  "set_link lh p = p\<lparr>shared := snd lh, link := (case fst lh of Listens l \<Rightarrow> Some l | _ \<Rightarrow> None),
     up := (fst lh \<noteq> Fatal)\<rparr>"

text \<open>A failed \<open>Accept\<close> is only logged, so it is no step.\<close>

inductive process_step :: "process \<Rightarrow> process \<Rightarrow> bool" where
  accept: "up p \<Longrightarrow> c \<noteq> 0 \<Longrightarrow> c \<notin> drawn p \<Longrightarrow>
    process_step p (p\<lparr>workers := workers p @ [\<lparr>peer = new_connection c pieces err, task = None\<rparr>],
      drawn := insert c (drawn p)\<rparr>)"
| client: "up p \<Longrightarrow> i < length (workers p) \<Longrightarrow> status (peer (workers p ! i)) = Open \<Longrightarrow>
    process_step p (set_worker i (worker_turn e (workers p ! i) (shared p)) p)"
| leader: "up p \<Longrightarrow> link p = Some l \<Longrightarrow> u \<noteq> 0 \<Longrightarrow> u \<notin> drawn p \<Longrightarrow>
    process_step p (set_link (link_turn e u l (shared p)) (p\<lparr>drawn := insert u (drawn p)\<rparr>))"

inductive_cases process_stepE: "process_step p p'"

inductive process_run :: "process \<Rightarrow> process \<Rightarrow> bool" for p0 :: process where
  here: "process_run p0 p0"
| later: "process_run p0 p \<Longrightarrow> process_step p p' \<Longrightarrow> process_run p0 p'"

lemma process_run_trans: "process_run p1 p2 \<Longrightarrow> process_run p0 p1 \<Longrightarrow> process_run p0 p2"
  by (induction rule: process_run.induct) (auto intro: process_run.later)

lemma process_run_step: "process_step p p1 \<Longrightarrow> process_run p1 p2 \<Longrightarrow> process_run p p2"
  using process_run_trans [of p1 p2 p] process_run.later [OF process_run.here] by blast

lemma set_worker_sel [simp]:
  "shared (set_worker i wh p) = snd wh" "workers (set_worker i wh p) = (workers p)[i := fst wh]"
  "link (set_worker i wh p) = link p" "drawn (set_worker i wh p) = drawn p"
  "up (set_worker i wh p) = (status (peer (fst wh)) \<noteq> Crashed)"
  by (simp_all add: set_worker_def)

lemma set_worker_twice [simp]: "set_worker i wh (set_worker i wh' p) = set_worker i wh p"
  by (simp add: set_worker_def)

lemma set_worker_same:
  "up p \<Longrightarrow> status (peer (workers p ! i)) \<noteq> Crashed \<Longrightarrow> set_worker i (workers p ! i, shared p) p = p"
  by (cases p) (simp add: set_worker_def)

section \<open>A request without an interruption\<close>

lemma run_alone:
  assumes "up p" "i < length (workers p)" "workers p ! i = \<lparr>peer = c, task = Some q\<rparr>" "status c = Open"
    and "alone q e (shared p) = (out, h)"
  shows "process_run p (set_worker i (\<lparr>peer = c, task = Some (Finished out)\<rparr>, h) p)"
  using assms
proof (induction q arbitrary: p)
  case (Finished out')
  then have "set_worker i (\<lparr>peer = c, task = Some (Finished out)\<rparr>, h) p = p"
    using set_worker_same [of p i] by simp
  then show ?case by (simp add: process_run.here)
next
  case (Atomic f)
  obtain q1 h1 where f: "f e (shared p) = (q1, h1)" by fastforce
  let ?p = "set_worker i (\<lparr>peer = c, task = Some q1\<rparr>, h1) p"
  have "worker_turn e (workers p ! i) (shared p) = (\<lparr>peer = c, task = Some q1\<rparr>, h1)"
    using Atomic.prems(3) f by (simp add: worker_turn_def)
  with process_step.client [OF Atomic.prems(1,2), of e] Atomic.prems(3,4) have "process_step p ?p" by simp
  moreover have "q1 \<in> Basic_BNFs.fsts (f e (shared p))" using f by (simp add: fsts.intros)
  from Atomic.IH [OF rangeI rangeI this, of ?p] Atomic.prems f
  have "process_run ?p (set_worker i (\<lparr>peer = c, task = Some (Finished out)\<rparr>, h) p)" by simp
  ultimately show ?case by (rule process_run_step)
qed

lemma run_request:
  assumes "up p" "i < length (workers p)" "workers p ! i = \<lparr>peer = c, task = None\<rparr>" "status c = Open"
    and "connection_step (\<lambda>_. e) c (shared p) = (c', h)"
  shows "process_run p (set_worker i (\<lparr>peer = c', task = None\<rparr>, h) p)"
proof -
  have take_it: "process_step p (set_worker i (take_request c, shared p) p)"
    using process_step.client [OF assms(1,2), of e] assms(3,4) by (simp add: worker_turn_def)
  obtain r l where r: "ParseServerCommand (clexer c) = (r, l)" by fastforce
  show ?thesis
  proof (cases r)
    case (Ret req)
    obtain name arr where req: "req = (name, arr)" by fastforce
    let ?ctx = "\<lparr>ConnId = ident c, RespArr = arr\<rparr>" and ?c = "c\<lparr>clexer := l\<rparr>"
    let ?p = "set_worker i (\<lparr>peer = ?c, task = Some (goroutine_of ?ctx name)\<rparr>, shared p) p"
    obtain out h1 where out: "HandleCommand (\<lambda>_. e) ?ctx name (shared p) = (out, h1)" by fastforce
    let ?q = "set_worker i (\<lparr>peer = ?c, task = Some (Finished out)\<rparr>, h1) p"
    have "alone (goroutine_of ?ctx name) e (shared p) = (out, h1)"
      using out by (simp add: alone_goroutine)
    then have "process_run ?p (set_worker i (\<lparr>peer = ?c, task = Some (Finished out)\<rparr>, h1) ?p)"
      using assms(2,4) by (intro run_alone) simp_all
    moreover have "process_step ?q (set_worker i (end_request out ?c, h1) ?q)"
      using process_step.client [of ?q i e] assms(2,4) by (simp add: worker_turn_def)
    moreover have "end_request out ?c = \<lparr>peer = c', task = None\<rparr>" "h1 = h"
      using assms(5) r Ret req out by (auto simp: connection_step_def end_request_def split: outcome.splits)
    ultimately have "process_run ?p (set_worker i (\<lparr>peer = c', task = None\<rparr>, h) p)"
      by (auto intro: process_run.later)
    moreover have "take_request c = \<lparr>peer = ?c, task = Some (goroutine_of ?ctx name)\<rparr>"
      using r Ret req by (simp add: take_request_def)
    ultimately show ?thesis using take_it by (auto intro: process_run_step)
  next
    case (Err er)
    then have "take_request c = \<lparr>peer = c', task = None\<rparr>" "h = shared p"
      using assms(5) r by (auto simp: take_request_def connection_step_def)
    with take_it show ?thesis by (auto intro: process_run_step process_run.here)
  next
    case Panic
    then have "take_request c = \<lparr>peer = c', task = None\<rparr>" "h = shared p"
      using assms(5) r by (auto simp: take_request_def connection_step_def)
    with take_it show ?thesis by (auto intro: process_run_step process_run.here)
  qed
qed

section \<open>What every interleaving keeps\<close>

definition worker_ok :: "uuid set \<Rightarrow> worker \<Rightarrow> bool" where
  "worker_ok ids w \<longleftrightarrow> ident (peer w) \<in> ids \<and> status (peer w) \<noteq> CutOff
     \<and> (\<forall>q. task w = Some q \<longrightarrow> status (peer w) = Open \<and> safe (ident (peer w)) q)"

definition link_ok :: "process \<Rightarrow> bool" where
  "link_ok p \<longleftrightarrow> (\<forall>l name arr q. link p = Some l \<longrightarrow> handling l = Some (name, arr, q) \<longrightarrow>
     safe (turn_id l) q \<and> turn_id l \<in> drawn p \<and> (\<forall>w \<in> set (workers p). ident (peer w) \<noteq> turn_id l))"

definition ids_ok :: "process \<Rightarrow> bool" where
  "ids_ok p \<longleftrightarrow> 0 \<notin> drawn p \<and> dom (TxQueue (shared p)) \<subseteq> insert 0 (drawn p)
     \<and> distinct (map (\<lambda>w. ident (peer w)) (workers p))"

definition process_ok :: "process \<Rightarrow> bool" where
  "process_ok p \<longleftrightarrow> host_ok (shared p) \<and> ids_ok p \<and> (\<forall>w \<in> set (workers p). worker_ok (drawn p) w) \<and> link_ok p
     \<and> (up p \<longrightarrow> (\<forall>w \<in> set (workers p). status (peer w) \<noteq> Crashed))"

lemma safe_step:
  assumes "safe c (Atomic f)" "host_ok h" "f e h = (q, h1)"
  shows "safe c q" "host_ok h1" "others_kept c h h1"
  using assms by (blast elim: safe_AtomicE)+

lemma take_request_ok: "ident (peer w) \<in> ids \<Longrightarrow> status (peer w) = Open \<Longrightarrow> worker_ok ids (take_request (peer w))"
  using goroutine_safe [of "\<lparr>ConnId = ident (peer w), RespArr = _\<rparr>"]
  by (auto simp: worker_ok_def take_request_def split: prod.splits go.splits)

lemma take_request_ident [simp]: "ident (peer (take_request c)) = ident c"
  by (simp add: take_request_def split: prod.splits go.splits)

lemma end_request_ident [simp]: "ident (peer (end_request out c)) = ident c"
  by (simp add: end_request_def split: outcome.splits)

lemma end_request_ok:
  "ident c \<in> ids \<Longrightarrow> status c = Open \<Longrightarrow> out \<noteq> TooDeep \<Longrightarrow> worker_ok ids (end_request out c)"
  by (simp add: worker_ok_def end_request_def split: outcome.splits)

lemma worker_turn_ok:
  assumes "worker_ok ids w" "status (peer w) = Open" "host_ok h" "worker_turn e w h = (w', h')"
  shows "worker_ok ids w'" "host_ok h'" "others_kept (ident (peer w)) h h'" "ident (peer w') = ident (peer w)"
proof -
  consider (idle) "task w = None" | (finished) out where "task w = Some (Finished out)"
    | (busy) f where "task w = Some (Atomic f)" by (metis not_Some_eq prog.exhaust)
  then have "worker_ok ids w' \<and> host_ok h' \<and> others_kept (ident (peer w)) h h' \<and> ident (peer w') = ident (peer w)"
  proof cases
    case idle
    then show ?thesis using assms take_request_ok [of w ids] by (auto simp: worker_turn_def worker_ok_def)
  next
    case finished
    then have "out \<noteq> TooDeep" "ident (peer w) \<in> ids" using assms(1) by (auto simp: worker_ok_def)
    then show ?thesis using finished assms(2-4) by (auto simp: worker_turn_def end_request_ok)
  next
    case busy
    obtain q h1 where f: "f e h = (q, h1)" by fastforce
    have "safe (ident (peer w)) (Atomic f)" using assms(1) busy by (simp add: worker_ok_def)
    from safe_step [OF this assms(3) f] show ?thesis
      using assms(1,2,4) busy f by (auto simp: worker_turn_def worker_ok_def)
  qed
  then show "worker_ok ids w'" "host_ok h'" "others_kept (ident (peer w)) h h'" "ident (peer w') = ident (peer w)"
    by blast+
qed

lemma others_kept_dom: "others_kept c h h1 \<Longrightarrow> dom (TxQueue h1) \<subseteq> insert 0 (insert c (dom (TxQueue h)))"
  by (force simp: others_kept_def dom_def)

lemma idents_unchanged:
  "ident (peer w') = ident (peer (ws ! i)) \<Longrightarrow> i < length ws \<Longrightarrow>
   map (\<lambda>w. ident (peer w)) (ws[i := w']) = map (\<lambda>w. ident (peer w)) ws"
  by (simp add: map_update list_update_same_conv)

lemma idents_set:
  fixes ws ws' :: "worker list"
  assumes "map (\<lambda>w. ident (peer w)) ws' = map (\<lambda>w. ident (peer w)) ws"
  shows "(\<forall>w \<in> set ws'. ident (peer w) \<noteq> u) = (\<forall>w \<in> set ws. ident (peer w) \<noteq> u)"
proof -
  have "(\<forall>w \<in> set xs. ident (peer w) \<noteq> u) = (u \<notin> set (map (\<lambda>w. ident (peer w)) xs))" for xs :: "worker list" by auto
  then show ?thesis by (simp only: assms)
qed

lemma AppendProcessedBytes_ok:
  "host_ok (AppendProcessedBytes n h) = host_ok h" "TxQueue (AppendProcessedBytes n h) = TxQueue h"
  by (simp_all add: AppendProcessedBytes_def host_ok_def queues_ok_def)

lemma client_ok:
  assumes "process_ok p" "up p" "i < length (workers p)" "status (peer (workers p ! i)) = Open"
  shows "process_ok (set_worker i (worker_turn e (workers p ! i) (shared p)) p)"
proof -
  let ?w = "workers p ! i"
  obtain w' h' where turn: "worker_turn e ?w (shared p) = (w', h')" by fastforce
  have mem: "?w \<in> set (workers p)" using assms(3) by simp
  then have w: "worker_ok (drawn p) ?w" and host: "host_ok (shared p)" using assms(1) by (auto simp: process_ok_def)
  note ok = worker_turn_ok [OF w assms(4) host turn]
  note ids = idents_unchanged [OF ok(4) assms(3)]
  have "ident (peer ?w) \<in> drawn p" using w by (simp add: worker_ok_def)
  then have "dom (TxQueue h') \<subseteq> insert 0 (drawn p)"
    using others_kept_dom [OF ok(3)] assms(1) by (auto simp: process_ok_def ids_ok_def)
  then have "ids_ok (set_worker i (w', h') p)" using assms(1) ids by (simp add: process_ok_def ids_ok_def)
  moreover have "link_ok (set_worker i (w', h') p)"
    using assms(1) idents_set [OF ids] by (simp add: process_ok_def link_ok_def)
  moreover have "\<forall>w \<in> set ((workers p)[i := w']). worker_ok (drawn p) w \<and> (status (peer w') \<noteq> Crashed \<longrightarrow> status (peer w) \<noteq> Crashed)"
    using assms(1,2) ok(1) set_update_subset_insert [of "workers p" i w'] by (auto simp: process_ok_def)
  ultimately show ?thesis using ok(2) turn by (simp add: process_ok_def)
qed

lemma link_answer_ok:
  assumes "host_ok h" "link_answer name arr out l h = (ls, h')"
  shows "host_ok h'" "TxQueue h' = TxQueue h" "\<And>l'. ls = Listens l' \<Longrightarrow> handling l' = None"
  using assms
  by (auto simp: link_answer_def Let_def AppendProcessedBytes_ok split: outcome.splits go.splits)

text \<open>A turn of the listener changes only the queues of its own id and of the zero UUID.\<close>

lemma link_turn_ok:
  assumes "host_ok h" "\<And>name arr q. handling l = Some (name, arr, q) \<Longrightarrow> safe (turn_id l) q"
    and "link_turn e u l h = (ls, h')"
  shows "host_ok h'" "others_kept (turn_id l) h h'" "handling l = None \<Longrightarrow> h' = h"
    "\<And>l' name arr q. ls = Listens l' \<Longrightarrow> handling l' = Some (name, arr, q) \<Longrightarrow>
       safe (turn_id l') q \<and> turn_id l' \<in> {u, turn_id l} \<and> (turn_id l' \<noteq> u \<longrightarrow> handling l \<noteq> None)"
proof -
  consider (idle) "handling l = None" | (finished) name arr out where "handling l = Some (name, arr, Finished out)"
    | (busy) name arr f where "handling l = Some (name, arr, Atomic f)"
    by (metis not_Some_eq prod_cases3 prog.exhaust)
  then have "host_ok h' \<and> others_kept (turn_id l) h h' \<and> (handling l = None \<longrightarrow> h' = h)
    \<and> (\<forall>l' name arr q. ls = Listens l' \<longrightarrow> handling l' = Some (name, arr, q) \<longrightarrow>
         safe (turn_id l') q \<and> turn_id l' \<in> {u, turn_id l} \<and> (turn_id l' \<noteq> u \<longrightarrow> handling l \<noteq> None))"
  proof cases
    case idle
    then show ?thesis using assms(1,3) goroutine_safe [of "\<lparr>ConnId = u, RespArr = _\<rparr>"]
      by (auto simp: link_turn_def link_receive_def split: prod.splits go.splits if_splits)
  next
    case finished
    then show ?thesis using assms(1,3) link_answer_ok [of h name arr out l] by (auto simp: link_turn_def)
  next
    case busy
    obtain q h1 where f: "f e h = (q, h1)" by fastforce
    from safe_step [OF assms(2) [OF busy] assms(1) f] show ?thesis
      using assms(3) busy f by (auto simp: link_turn_def)
  qed
  then show "host_ok h'" "others_kept (turn_id l) h h'" "handling l = None \<Longrightarrow> h' = h"
    "\<And>l' name arr q. ls = Listens l' \<Longrightarrow> handling l' = Some (name, arr, q) \<Longrightarrow>
       safe (turn_id l') q \<and> turn_id l' \<in> {u, turn_id l} \<and> (turn_id l' \<noteq> u \<longrightarrow> handling l \<noteq> None)"
    by blast+
qed

lemma set_link_sel [simp]:
  "shared (set_link lh p) = snd lh" "workers (set_link lh p) = workers p" "drawn (set_link lh p) = drawn p"
  "up (set_link lh p) = (fst lh \<noteq> Fatal)"
  "link (set_link lh p) = (case fst lh of Listens l \<Rightarrow> Some l | _ \<Rightarrow> None)"
  by (simp_all add: set_link_def)

lemma leader_ok:
  assumes "process_ok p" "up p" "link p = Some l" "u \<noteq> 0" "u \<notin> drawn p"
  shows "process_ok (set_link (link_turn e u l (shared p)) (p\<lparr>drawn := insert u (drawn p)\<rparr>))"
proof -
  obtain ls h' where turn: "link_turn e u l (shared p) = (ls, h')" by fastforce
  have l: "safe (turn_id l) q \<and> turn_id l \<in> drawn p \<and> (\<forall>w \<in> set (workers p). ident (peer w) \<noteq> turn_id l)"
    if "handling l = Some (name, arr, q)" for name arr q
    using assms(1,3) that unfolding process_ok_def link_ok_def by blast
  have host: "host_ok (shared p)" using assms(1) by (simp add: process_ok_def)
  have safe: "safe (turn_id l) q" if "handling l = Some (name, arr, q)" for name arr q using l [OF that] by simp
  have ok: "host_ok h'" "others_kept (turn_id l) (shared p) h'" "handling l = None \<Longrightarrow> h' = shared p"
    using link_turn_ok(1-3) [OF host _ turn] safe by blast+
  have before: "dom (TxQueue (shared p)) \<subseteq> insert 0 (drawn p)" using assms(1) by (simp add: process_ok_def ids_ok_def)
  have ids: "\<forall>w \<in> set (workers p). ident (peer w) \<in> drawn p" using assms(1) by (auto simp: process_ok_def worker_ok_def)
  have "dom (TxQueue h') \<subseteq> insert 0 (insert u (drawn p))"
  proof (cases "handling l")
    case None
    then show ?thesis using ok(3) before by auto
  next
    case (Some req)
    obtain name arr q where "req = (name, arr, q)" by (metis prod_cases3)
    with Some l have "turn_id l \<in> drawn p" by blast
    then show ?thesis using others_kept_dom [OF ok(2)] before by blast
  qed
  then have "ids_ok (set_link (ls, h') (p\<lparr>drawn := insert u (drawn p)\<rparr>))"
    using assms(1,4) by (simp add: process_ok_def ids_ok_def)
  moreover have "link_ok (set_link (ls, h') (p\<lparr>drawn := insert u (drawn p)\<rparr>))"
  proof -
    have "safe (turn_id l') q \<and> turn_id l' \<in> insert u (drawn p) \<and> (\<forall>w \<in> set (workers p). ident (peer w) \<noteq> turn_id l')"
      if "ls = Listens l'" "handling l' = Some (name, arr, q)" for l' name arr q
      using link_turn_ok(4) [OF host _ turn that] safe l ids assms(5) by (metis insertCI insertE not_Some_eq prod_cases3 singletonD)
    then show ?thesis by (auto simp: link_ok_def split: link_state.splits)
  qed
  moreover have "\<forall>w \<in> set (workers p). worker_ok (insert u (drawn p)) w \<and> status (peer w) \<noteq> Crashed"
    using assms(1,2) by (auto simp: process_ok_def worker_ok_def)
  ultimately show ?thesis using ok(1) turn by (simp add: process_ok_def)
qed

lemma accept_ok:
  assumes "process_ok p" "c \<noteq> 0" "c \<notin> drawn p"
  shows "process_ok (p\<lparr>workers := workers p @ [\<lparr>peer = new_connection c pieces err, task = None\<rparr>],
    drawn := insert c (drawn p)\<rparr>)"
proof -
  have "\<forall>w \<in> set (workers p). ident (peer w) \<noteq> c" using assms by (auto simp: process_ok_def worker_ok_def)
  moreover from this have "c \<notin> (\<lambda>w. ident (peer w)) ` set (workers p)" by auto
  ultimately show ?thesis using assms
    by (auto simp: process_ok_def ids_ok_def worker_ok_def new_connection_def link_ok_def)
qed

lemma process_step_ok: "process_step p p' \<Longrightarrow> process_ok p \<Longrightarrow> process_ok p'"
  by (induction rule: process_step.induct) (auto intro: client_ok leader_ok accept_ok)

lemma process_run_ok: "process_run p p' \<Longrightarrow> process_ok p \<Longrightarrow> process_ok p'"
  by (induction rule: process_run.induct) (auto intro: process_step_ok)

lemma redis_main_ok:
  assumes "redis_main m args = Some p"
  shows "process_ok p" "up p" "workers p = []" "drawn p = {}"
proof -
  obtain conf h l where "boot conf (fatal_returns m) (files m) (clock m) (new_id m) = Some h" "link_start m conf = Some l"
    and p: "p = \<lparr>shared = h, workers = [], link = l, drawn = {}, up = True\<rparr>"
    using assms by (auto simp: redis_main_def split: option.splits if_splits)
  then show "process_ok p" using boot_ok(1,2)
    by (fastforce simp: process_ok_def ids_ok_def link_ok_def link_start_def split: if_splits)
  show "up p" "workers p = []" "drawn p = {}" by (simp_all add: p)
qed

section \<open>A connection that is over\<close>

lemma finished_step:
  assumes "process_step p p'" "process_ok p" "i < length (workers p)" "status (peer (workers p ! i)) \<noteq> Open"
  shows "i < length (workers p')" "workers p' ! i = workers p ! i"
    "TxQueue (shared p') (ident (peer (workers p ! i))) = TxQueue (shared p) (ident (peer (workers p ! i)))"
proof -
  let ?c = "ident (peer (workers p ! i))"
  have mem: "workers p ! i \<in> set (workers p)" using assms(3) by simp
  have c: "?c \<in> drawn p" "?c \<noteq> 0" using assms(2) mem by (auto simp: process_ok_def worker_ok_def ids_ok_def)
  have host: "host_ok (shared p)" using assms(2) by (simp add: process_ok_def)
  from assms(1) have "i < length (workers p') \<and> workers p' ! i = workers p ! i
      \<and> TxQueue (shared p') ?c = TxQueue (shared p) ?c"
  proof cases
    case accept
    then show ?thesis using assms(3) by (simp add: nth_append)
  next
    case (client j e)
    then have ne: "j \<noteq> i" using assms(4) by auto
    have "workers p ! j \<in> set (workers p)" using client(3) by simp
    then have w: "worker_ok (drawn p) (workers p ! j)" using assms(2) by (simp add: process_ok_def)
    obtain w' h' where turn: "worker_turn e (workers p ! j) (shared p) = (w', h')" by fastforce
    have "others_kept (ident (peer (workers p ! j))) (shared p) h'" by (rule worker_turn_ok(3) [OF w client(4) host turn])
    moreover have "ident (peer (workers p ! j)) \<noteq> ?c"
      using assms(2,3) client(3) ne by (auto simp: process_ok_def ids_ok_def distinct_conv_nth)
    ultimately show ?thesis using client(1) c assms(3) ne turn by (simp add: others_kept_def)
  next
    case (leader l u e)
    obtain ls h' where turn: "link_turn e u l (shared p) = (ls, h')" by fastforce
    have l: "safe (turn_id l) q \<and> turn_id l \<noteq> ?c" if "handling l = Some (name, arr, q)" for name arr q
      using assms(2) leader(3) that mem unfolding process_ok_def link_ok_def by metis
    have "TxQueue h' ?c = TxQueue (shared p) ?c"
    proof (cases "handling l")
      case None
      then show ?thesis using link_turn_ok(3) [OF host _ turn] by simp
    next
      case (Some req)
      then have "others_kept (turn_id l) (shared p) h'" "turn_id l \<noteq> ?c"
        using link_turn_ok(2) [OF host _ turn] l by (metis prod_cases3)+
      then show ?thesis using c by (simp add: others_kept_def)
    qed
    then show ?thesis using leader(1) assms(3) turn by simp
  qed
  then show "i < length (workers p')" "workers p' ! i = workers p ! i"
    "TxQueue (shared p') ?c = TxQueue (shared p) ?c" by blast+
qed

lemma finished_run:
  "process_run p p' \<Longrightarrow> process_ok p \<Longrightarrow> i < length (workers p) \<Longrightarrow> status (peer (workers p ! i)) \<noteq> Open \<Longrightarrow>
   i < length (workers p') \<and> workers p' ! i = workers p ! i
   \<and> TxQueue (shared p') (ident (peer (workers p ! i))) = TxQueue (shared p) (ident (peer (workers p ! i)))"
proof (induction rule: process_run.induct)
  case (later p1 p2)
  then show ?case using finished_step [OF later.hyps(2) process_run_ok [OF later.hyps(1)], of i] by simp
qed simp

section \<open>A client on its own\<close>

lemma run_connection:
  assumes "handleConnection sch k c h = (c', h')" "\<And>j. sch j = e" "shared p = h"
    and "up p" "i < length (workers p)" "workers p ! i = \<lparr>peer = c, task = None\<rparr>" "status c = Open"
  shows "process_run p (set_worker i (\<lparr>peer = c', task = None\<rparr>, h') p)"
  using assms
proof (induction sch k c h arbitrary: p rule: handleConnection.induct)
  case (1 sch k c h)
  obtain c1 h1 where step: "connection_step (\<lambda>j. sch (k + j)) c h = (c1, h1)" by fastforce
  have const: "(\<lambda>j. sch (k + j)) = (\<lambda>_. e)" using 1(3) by simp
  let ?p = "set_worker i (\<lparr>peer = c1, task = None\<rparr>, h1) p"
  have run: "process_run p ?p" using step const 1(4) by (intro run_request [OF 1(5-8)]) simp
  show ?case
  proof (cases "status c1 = Open")
    case False
    then show ?thesis using run step 1(2,8) by (simp add: handleConnection.simps [of sch k c])
  next
    case True
    then have "handleConnection sch (k + 1) c1 h1 = (c', h')"
      using step 1(2,8) by (simp add: handleConnection.simps [of sch k c])
    then have "process_run ?p (set_worker i (\<lparr>peer = c', task = None\<rparr>, h') ?p)"
      using True 1(6,8) by (intro 1(1) [OF _ step [symmetric] _ _ 1(3)]) simp_all
    then show ?thesis using process_run_trans [OF _ run] by simp
  qed
qed

lemma connection_step_ident: "ident (fst (connection_step sch c h)) = ident c"
  by (auto simp: connection_step_def split: prod.splits go.splits outcome.splits)

lemma handleConnection_ident: "ident (fst (handleConnection sch k c h)) = ident c"
proof (induction sch k c h rule: handleConnection.induct)
  case (1 sch k c h)
  obtain c1 h1 where step: "connection_step (\<lambda>j. sch (k + j)) c h = (c1, h1)" by fastforce
  then have "ident c1 = ident c" using connection_step_ident [of "\<lambda>j. sch (k + j)" c h] by simp
  then show ?case using 1 [OF _ step [symmetric]] step by (simp add: handleConnection.simps [of sch k c])
qed

section \<open>Properties\<close>

text \<open>C7. A client that no other goroutine interrupts is served as \<open>handleConnection\<close> says:
  the process, with its commands cut into single operations, has a run that ends with that
  connection and that shared state, and with everything else as it was.\<close>

theorem client_served_alone:
  assumes "up p" "i < length (workers p)" "workers p ! i = \<lparr>peer = c, task = None\<rparr>" "status c = Open"
    and "handleConnection (\<lambda>_. e) k c (shared p) = (c', h')"
  shows "\<exists>p'. process_run p p' \<and> shared p' = h' \<and> workers p' = (workers p)[i := \<lparr>peer = c', task = None\<rparr>]
    \<and> link p' = link p \<and> (up p' \<longleftrightarrow> status c' \<noteq> Crashed)"
  using run_connection [OF assms(5) refl refl assms(1-4)]
  by (intro exI [of _ "set_worker i (\<lparr>peer = c', task = None\<rparr>, h') p"]) simp

text \<open>A machine without a file, and the process that starts on it.\<close>

definition bare_machine :: machine where
  "bare_machine = \<lparr>files = (\<lambda>_ _. Err err_not_exist), clock = 0, new_id = ''id'', fatal_returns = False,
     dials = (\<lambda>_. Err EOF), write_fails = (\<lambda>_. None), listens = (\<lambda>_. True)\<rparr>"

lemma bare_main:
  obtains p where "redis_main bare_machine [] = Some p" "Store (shared p) = new_kv_store" "link p = None"
    "TxQueue (shared p) = Map.empty" "Published (shared p) = []"
proof -
  obtain h where h: "boot default_config False (\<lambda>d f. Err err_not_exist) 0 ''id'' = Some h" "Store h = new_kv_store"
    using boot_without_file [of "\<lambda>d f. Err err_not_exist" default_config False 0 "''id''"] by auto
  show thesis
    using h boot_ok(2,5) [OF h(1)]
    by (intro that [of "\<lparr>shared = h, workers = [], link = None, drawn = {}, up = True\<rparr>"])
       (simp_all add: redis_main_def parseArgs_def link_start_def bare_machine_def default_config_def)
qed

lemma accepted_run:
  assumes "up p" "c \<noteq> 0" "c \<notin> drawn p"
  shows "process_run p (p\<lparr>workers := workers p @ [\<lparr>peer = new_connection c pieces err, task = None\<rparr>],
    drawn := insert c (drawn p)\<rparr>)"
  by (rule process_run_step [OF process_step.accept [OF assms] process_run.here])

text \<open>A client that is accepted, served alone and gone.\<close>

lemma visit_run:
  assumes "up p" "cid \<noteq> 0" "cid \<notin> drawn p" "handleConnection (\<lambda>_. e) 0 (new_connection cid pieces err) (shared p) = (c, h)"
    and "status c \<noteq> Crashed"
  shows "\<exists>p'. process_run p p' \<and> shared p' = h \<and> workers p' = workers p @ [\<lparr>peer = c, task = None\<rparr>] \<and> up p'
    \<and> drawn p' = insert cid (drawn p) \<and> ident c = cid"
proof -
  let ?p = "p\<lparr>workers := workers p @ [\<lparr>peer = new_connection cid pieces err, task = None\<rparr>], drawn := insert cid (drawn p)\<rparr>"
  let ?q = "set_worker (length (workers p)) (\<lparr>peer = c, task = None\<rparr>, h) ?p"
  have "process_run ?p ?q"
    using assms(1,4) by (intro run_connection [where e = e and sch = "\<lambda>_. e" and c = "new_connection cid pieces err"]) (simp_all add: new_connection_def)
  then have "process_run p ?q" by (rule process_run_trans [OF _ accepted_run [OF assms(1-3)]])
  moreover have "ident c = cid" using handleConnection_ident [of "\<lambda>_. e" 0 "new_connection cid pieces err" "shared p"] assms(4)
    by (simp add: new_connection_def)
  ultimately show ?thesis using assms(5) by (intro exI [of _ ?q]) simp
qed

definition multi_input :: string where
  "multi_input = wire_of [[RespBulkString ''multi'']]"

lemma multi_visit:
  assumes "TxQueue h 7 = None"
  shows "\<exists>c. handleConnection (\<lambda>_. still_env 0) 0 (new_connection 7 [multi_input] EOF) h = (c, with_queue 7 [] h)
    \<and> written c = ''+OK'' @ CRLF \<and> status c = Closed"
proof -
  have n: "itoa 1 = ''1''" "itoa 5 = ''5''" by code_simp+
  have "serve_all (\<lambda>_. still_env 0) 0 7 (map request_of [[RespBulkString ''multi'']]) h = (map Reply [''+OK'' @ CRLF], with_queue 7 [] h)"
    using assms HandleCommand_multi [of h 7] by (simp add: request_of_def)
  from pipelined_requests [OF _ _ _ this] show ?thesis
    using n by (auto simp: wire_request_def multi_input_def)
qed

lemma multi_run:
  "\<exists>p p' c. redis_main bare_machine [] = Some p \<and> process_run p p' \<and> workers p' = [\<lparr>peer = c, task = None\<rparr>]
    \<and> ident c = 7 \<and> status c = Closed \<and> TxQueue (shared p') 7 = Some []"
proof -
  obtain p where p: "redis_main bare_machine [] = Some p" "TxQueue (shared p) = Map.empty" by (rule bare_main)
  obtain c where c: "handleConnection (\<lambda>_. still_env 0) 0 (new_connection 7 [multi_input] EOF) (shared p)
      = (c, with_queue 7 [] (shared p))" "status c = Closed"
    using multi_visit [of "shared p"] p(2) by auto
  with visit_run [OF _ _ _ c(1)] redis_main_ok [OF p(1)]
  obtain p' where "process_run p p'" "shared p' = with_queue 7 [] (shared p)" "workers p' = [\<lparr>peer = c, task = None\<rparr>]" "ident c = 7"
    by auto
  with p(1) c show ?thesis by auto
qed

theorem client_served_alone_witness:
  "\<exists>p p' c. redis_main bare_machine [] = Some p \<and> workers p' = [\<lparr>peer = c, task = None\<rparr>]
    \<and> process_run (p\<lparr>workers := [\<lparr>peer = new_connection 7 [multi_input] EOF, task = None\<rparr>]\<rparr>) p'
    \<and> written c = ''+OK'' @ CRLF \<and> TxQueue (shared p') 7 = Some []"
proof -
  obtain p where p: "redis_main bare_machine [] = Some p" "TxQueue (shared p) = Map.empty" by (rule bare_main)
  let ?c = "new_connection 7 [multi_input] EOF"
  let ?p = "p\<lparr>workers := [\<lparr>peer = ?c, task = None\<rparr>]\<rparr>"
  obtain c where c: "handleConnection (\<lambda>_. still_env 0) 0 ?c (shared ?p) = (c, with_queue 7 [] (shared p))"
      "written c = ''+OK'' @ CRLF"
    using multi_visit [of "shared p"] p(2) by auto
  have "status ?c = Open" by (simp add: new_connection_def)
  with client_served_alone [of ?p 0 ?c, OF _ _ _ _ c(1)] redis_main_ok(2) [OF p(1)] obtain p' where
    "process_run ?p p'" "shared p' = with_queue 7 [] (shared p)" "workers p' = [\<lparr>peer = c, task = None\<rparr>]" by auto
  with p(1) c(2) show ?thesis by (intro exI [of _ p] exI [of _ p'] exI [of _ c]) simp
qed

text \<open>C6. Whatever clients connect, whatever they and the leader send, and however the
  operations of their commands interleave, a process that started is in a well-formed
  state: the streams are sorted, values have known types and no queue holds EXEC or
  DISCARD; connection ids are distinct, a transaction belongs to an id that was handed out
  or to the zero UUID, only an open connection is busy, and none has crashed while the
  process is up.\<close>

theorem process_runs_well_formed:
  assumes "redis_main m args = Some p0" "process_run p0 p"
  shows "host_ok (shared p) \<and> distinct (map (\<lambda>w. ident (peer w)) (workers p))
    \<and> (\<forall>c. TxQueue (shared p) c \<noteq> None \<longrightarrow> c = 0 \<or> c \<in> drawn p)
    \<and> (\<forall>w \<in> set (workers p). ident (peer w) \<in> drawn p - {0} \<and> status (peer w) \<noteq> CutOff
         \<and> (task w \<noteq> None \<longrightarrow> status (peer w) = Open) \<and> (up p \<longrightarrow> status (peer w) \<noteq> Crashed))"
proof -
  have "process_ok p" by (rule process_run_ok [OF assms(2) redis_main_ok(1) [OF assms(1)]])
  then show ?thesis by (fastforce simp: process_ok_def ids_ok_def worker_ok_def)
qed

theorem process_runs_well_formed_witness:
  "\<exists>p p' c. redis_main bare_machine [] = Some p \<and> process_run p p' \<and> TxQueue (shared p') 7 = Some []
    \<and> host_ok (shared p') \<and> 7 \<in> drawn p'"
proof -
  obtain p p' c where run: "redis_main bare_machine [] = Some p" "process_run p p'" "TxQueue (shared p') 7 = Some []"
    using multi_run by blast
  from process_runs_well_formed [OF run(1,2)] run show ?thesis by auto
qed

text \<open>C30. A connection that ends inside a transaction leaves the transaction's queue in the
  shared state for as long as the process runs: no later step removes or changes it, and
  nothing more happens on the connection.\<close>

theorem abandoned_transaction_stays:
  assumes "redis_main m args = Some p0" "process_run p0 p" "i < length (workers p)"
    and "status (peer (workers p ! i)) \<noteq> Open" "ident (peer (workers p ! i)) = c" "TxQueue (shared p) c = Some q"
    and "process_run p p'"
  shows "TxQueue (shared p') c = Some q \<and> workers p' ! i = workers p ! i"
  using finished_run [OF assms(7) process_run_ok [OF assms(2) redis_main_ok(1) [OF assms(1)]] assms(3,4)] assms(5,6)
  by simp

theorem abandoned_transaction_stays_witness:
  "\<exists>p. TxQueue (shared p) 7 = Some [] \<and> process_run p p \<and> status (peer (workers p ! 0)) = Closed"
proof -
  obtain p p' c where run: "redis_main bare_machine [] = Some p" "process_run p p'" "workers p' = [\<lparr>peer = c, task = None\<rparr>]"
    "ident c = 7" "status c = Closed" "TxQueue (shared p') 7 = Some []"
    using multi_run by blast
  with abandoned_transaction_stays [OF run(1,2) _ _ _ run(6) process_run.here, of 0] show ?thesis
    by (auto intro: process_run.here)
qed


end
