(* ===== verification/Redis_Races.thy ===== *)
theory Redis_Races
  imports Redis_Process
begin

text \<open>
  What two clients of one process can do to one another, because a command is more than one
  operation on the shared state: an increment is lost, EXEC sees a write of another client
  between two of its commands, and the order of two writes on the leader is not the order in
  which they are published, so that a follower ends with another value. Each is a run of the
  process of \<open>Redis_Process\<close> from any state in which the two clients' requests are next.
\<close>

section \<open>Two goroutines taking turns\<close>

type_synonym duo = "worker \<times> worker \<times> host"

text \<open>A list of turns, \<open>True\<close> for the first goroutine; \<open>None\<close> when one is not open or crashes.\<close>

fun duo_turn :: "env \<Rightarrow> bool \<Rightarrow> duo \<Rightarrow> duo option" where
  "duo_turn e left (a, b, h) =
     (case worker_turn e (if left then a else b) h of (w, h1) \<Rightarrow>
       if status (peer (if left then a else b)) = Open \<and> status (peer w) \<noteq> Crashed
       then Some (if left then (w, b, h1) else (a, w, h1)) else None)"

fun duo_turns :: "env \<Rightarrow> bool list \<Rightarrow> duo \<Rightarrow> duo option" where
  "duo_turns e [] s = Some s"
| "duo_turns e (left # ts) s = (case duo_turn e left s of None \<Rightarrow> None | Some s1 \<Rightarrow> duo_turns e ts s1)"

lemma duo_turns_append:
  "duo_turns e (ts @ us) s = (case duo_turns e ts s of None \<Rightarrow> None | Some s1 \<Rightarrow> duo_turns e us s1)"
  by (induction ts arbitrary: s) (auto split: option.splits)

definition set_duo :: "nat \<Rightarrow> nat \<Rightarrow> duo \<Rightarrow> process \<Rightarrow> process" where
  "set_duo i j s p = (case s of (a, b, h) \<Rightarrow> p\<lparr>shared := h, workers := (workers p)[i := a, j := b]\<rparr>)"

lemma set_duo_sel [simp]:
  "shared (set_duo i j (a, b, h) p) = h" "workers (set_duo i j (a, b, h) p) = (workers p)[i := a, j := b]"
  "up (set_duo i j s p) = up p"
  by (simp_all add: set_duo_def split: prod.splits)

lemma duo_turn_step:
  assumes "up p" "i \<noteq> j" "i < length (workers p)" "j < length (workers p)" "duo_turn e left s = Some s1"
  shows "process_step (set_duo i j s p) (set_duo i j s1 p)"
proof -
  obtain a b h where s: "s = (a, b, h)" by (metis prod_cases3)
  obtain w h1 where w: "worker_turn e (if left then a else b) h = (w, h1)" by fastforce
  let ?k = "if left then i else j" and ?p = "set_duo i j s p"
  have "workers ?p ! ?k = (if left then a else b)" "?k < length (workers ?p)"
    using assms(2-4) s by (auto simp: set_duo_def)
  with process_step.client [of ?p ?k e] assms(1,5) s w
  have "process_step ?p (set_worker ?k (w, h1) ?p)" by (auto simp: set_duo_def split: if_splits)
  moreover have "set_worker ?k (w, h1) ?p = set_duo i j s1 p"
    using assms s w by (cases p) (auto simp: set_worker_def set_duo_def list_update_swap split: if_splits)
  ultimately show ?thesis by simp
qed

lemma duo_turns_run:
  assumes "up p" "i \<noteq> j" "i < length (workers p)" "j < length (workers p)" "duo_turns e ts s = Some s1"
  shows "process_run (set_duo i j s p) (set_duo i j s1 p)"
  using assms(5)
proof (induction ts arbitrary: s)
  case (Cons left ts)
  then obtain s2 where "duo_turn e left s = Some s2" "duo_turns e ts s2 = Some s1" by (auto split: option.splits)
  with duo_turn_step [OF assms(1-4)] Cons.IH show ?case by (blast intro: process_run_step)
qed (auto intro: process_run.here)

section \<open>Clients whose next request is known\<close>

text \<open>Goroutine \<open>i\<close> is open and idle, and what it reads next is the request \<open>arr\<close>.\<close>

definition asks :: "process \<Rightarrow> nat \<Rightarrow> string \<Rightarrow> resp list \<Rightarrow> bool" where
  "asks p i name arr \<longleftrightarrow> i < length (workers p) \<and> task (workers p ! i) = None
     \<and> status (peer (workers p ! i)) = Open
     \<and> (\<exists>l. ParseServerCommand (clexer (peer (workers p ! i))) = (Ret (name, arr), l))"

definition queue_at :: "process \<Rightarrow> nat \<Rightarrow> queued_command list option" where
  "queue_at p i = TxQueue (shared p) (ident (peer (workers p ! i)))"

text \<open>What has been written to client \<open>i\<close> between two states, when it is idle again.\<close>

definition answered :: "process \<Rightarrow> process \<Rightarrow> nat \<Rightarrow> resp \<Rightarrow> bool" where
  "answered p p' i v \<longleftrightarrow> task (workers p' ! i) = None
     \<and> written (peer (workers p' ! i)) = written (peer (workers p ! i)) @ as_resp_string v"

lemma duo_run:
  assumes "up p" "i \<noteq> j" "i < length (workers p)" "j < length (workers p)"
    and "duo_turns e ts (workers p ! i, workers p ! j, shared p) = Some (a, b, h)"
  shows "\<exists>p'. process_run p p' \<and> shared p' = h \<and> workers p' ! i = a \<and> workers p' ! j = b"
proof -
  have "set_duo i j (workers p ! i, workers p ! j, shared p) p = p" by (cases p) (simp add: set_duo_def)
  with duo_turns_run [OF assms] have "process_run p (set_duo i j (a, b, h) p)" by simp
  then show ?thesis using assms(2-4) by (intro exI [of _ "set_duo i j (a, b, h) p"]) simp
qed

text \<open>What evaluates the turns of a goroutine.\<close>

lemmas turn_simps = worker_turn_def take_request_def goroutine_of_def command_depth.simps command_prog_def
  IsInTransaction_def dispatch_prog_def then_ret_def publishing_def end_request_def publish_def Let_def

section \<open>A lost increment\<close>

lemma incr_race:
  assumes "asks p i ni ai" "to_lower ni = ''incr''" "bulk_at ai 1 = Ret key" "queue_at p i = None"
    and "asks p j nj aj" "to_lower nj = ''incr''" "bulk_at aj 1 = Ret key" "queue_at p j = None"
    and "kvalues (Store (shared p)) key = Some (VString (itoa n))" "expiries (Store (shared p)) key = None" "in_int64 n"
  shows "\<exists>a b h. duo_turns e [True, True, False, False, True, False, True, False, True, False, True, False]
      (workers p ! i, workers p ! j, shared p) = Some (a, b, h)
    \<and> task a = None \<and> task b = None
    \<and> written (peer a) = written (peer (workers p ! i)) @ as_resp_string (RespInteger (wrap_int (n + 1)))
    \<and> written (peer b) = written (peer (workers p ! j)) @ as_resp_string (RespInteger (wrap_int (n + 1)))
    \<and> kvalues (Store h) key = Some (VString (itoa (wrap_int (n + 1))))"
proof -
  have get: "kv_get (now e) key (Store (shared p)) = ((Some (VString (itoa n)), True), Store (shared p))"
    using assms(9,10) by (simp add: kv_get_def)
  obtain li lj where "ParseServerCommand (clexer (peer (workers p ! i))) = (Ret (ni, ai), li)"
    "ParseServerCommand (clexer (peer (workers p ! j))) = (Ret (nj, aj), lj)" using assms(1,5) by (auto simp: asks_def)
  then show ?thesis using assms get
    by (simp add: asks_def queue_at_def turn_simps incr_prog_def store_number_def kv_set_def del: as_resp_string.simps)
qed

section \<open>EXEC is not isolated\<close>

definition get_of :: "string \<Rightarrow> queued_command" where
  "get_of key = \<lparr>qcommand = ''get'', qarr = [RespBulkString ''GET'', RespBulkString key]\<rparr>"

definition set_of :: "string \<Rightarrow> string \<Rightarrow> resp list" where
  "set_of key v = [RespBulkString ''SET'', RespBulkString key, RespBulkString v]"

lemma set_of_words [simp]:
  "bulk_at (set_of key v) (Suc 0) = Ret key" "bulk_at (set_of key v) 2 = Ret v" "set_expiry (set_of key v) = Ret 0"
  by (simp_all add: set_of_def bulk_at_def set_expiry_def numeral_2_eq_2)

lemma exec_race:
  assumes "asks p i ni ai" "to_lower ni = ''exec''" "queue_at p i = Some [get_of key, get_of key]"
    and "asks p j nj (set_of key v')" "to_lower nj = ''set''" "queue_at p j = None"
    and "TxQueue (shared p) 0 = None" "ident (peer (workers p ! i)) \<noteq> 0" "ident (peer (workers p ! j)) \<noteq> ident (peer (workers p ! i))"
    and "kvalues (Store (shared p)) key = Some (VString v)" "expiries (Store (shared p)) key = None"
  shows "\<exists>a b h. duo_turns e [True, True, True, True, True, True, False, False, False, False, False, True, True, True]
      (workers p ! i, workers p ! j, shared p) = Some (a, b, h)
    \<and> task a = None \<and> task b = None
    \<and> written (peer a) = written (peer (workers p ! i)) @ as_resp_string (RespArray [RespBulkString v, RespBulkString v'])
    \<and> written (peer b) = written (peer (workers p ! j)) @ as_resp_string (RespSimpleString ''OK'')"
proof -
  have l: "to_lower ''get'' = ''get''" by code_simp
  have two: "resp_arr_string_from_strings [as_resp_string x, as_resp_string y] = as_resp_string (RespArray [x, y])" for x y
    using resp_arr_string_from_strings_map [of "[x, y]"] by simp
  have word: "bulk_at [RespBulkString ''GET'', RespBulkString key] (Suc 0) = Ret key" by (simp add: bulk_at_def)
  obtain li lj where "ParseServerCommand (clexer (peer (workers p ! i))) = (Ret (ni, ai), li)"
    "ParseServerCommand (clexer (peer (workers p ! j))) = (Ret (nj, set_of key v'), lj)" using assms(1,4) by (auto simp: asks_def)
  then show ?thesis using assms
    by (simp add: asks_def queue_at_def turn_simps exec_prog_def ConsumeTransactionQueue_def get_of_def l one_step_def word
        HandleGet_def with_ret_def kv_get_def set_prog_def kv_set_def two del: as_resp_string.simps)
qed

section \<open>Writes published in another order\<close>

lemma publish_race:
  assumes "asks p i ni (set_of key x)" "to_lower ni = ''set''" "queue_at p i = None"
    and "asks p j nj (set_of key y)" "to_lower nj = ''set''" "queue_at p j = None"
  shows "\<exists>a b h. duo_turns e [True, True, True, False, False, False, False, False, True, True]
      (workers p ! i, workers p ! j, shared p) = Some (a, b, h)
    \<and> task a = None \<and> task b = None
    \<and> written (peer a) = written (peer (workers p ! i)) @ as_resp_string (RespSimpleString ''OK'')
    \<and> written (peer b) = written (peer (workers p ! j)) @ as_resp_string (RespSimpleString ''OK'')
    \<and> kvalues (Store h) key = Some (VString y)
    \<and> Published h = Published (shared p) @ map (\<lambda>arr. as_resp_string (RespArray arr)) [set_of key y, set_of key x]"
proof -
  obtain li lj where "ParseServerCommand (clexer (peer (workers p ! i))) = (Ret (ni, set_of key x), li)"
    "ParseServerCommand (clexer (peer (workers p ! j))) = (Ret (nj, set_of key y), lj)" using assms(1,4) by (auto simp: asks_def)
  then show ?thesis using assms
    by (simp add: asks_def queue_at_def turn_simps set_prog_def kv_set_def del: as_resp_string.simps)
qed

text \<open>A follower that applies two SETs of one key ends with the second value.\<close>

lemma follower_takes_last:
  assumes "key \<noteq> []" "x \<noteq> []" "y \<noteq> []" "length (wire_of [set_of key y, set_of key x]) \<le> bufsize"
    and "\<forall>k. TxQueue g (ids k) = None" "ProcessedBytes g = 0"
  shows "\<exists>f g'. replication_run sch ids 0 (new_follower (buffered (wire_of [set_of key y, set_of key x]))) g
      = Some (Stop, f, g') \<and> kvalues (Store g') key = Some (VString x)"
proof -
  let ?es = "[set_of key y, set_of key x]"
  have l: "to_lower ''SET'' = ''set''" by code_simp
  have r: "request_of (set_of key v) = (''SET'', set_of key v)" for v by (simp add: request_of_def set_of_def)
  obtain rs g' where ap: "apply_events sch ids 0 0 ?es g = (map Reply rs, g')" "kvalues (Store g') key = Some (VString x)"
  proof -
    let ?ok = "as_resp_string (RespSimpleString ''OK'')"
    have "\<exists>g'. apply_events sch ids 0 0 ?es g = (map Reply [?ok, ?ok], g') \<and> kvalues (Store g') key = Some (VString x)"
      using assms(5) by (simp add: r HandleCommand_direct l dispatch_def HandleSet_def with_ret_def Let_def publish_def kv_set_def
          del: as_resp_string.simps)
    then show thesis using that by blast
  qed
  have "list_all wire_request ?es" using assms(1-3) by (simp add: wire_request_def set_of_def)
  with run_new_follower [OF _ assms(4) _ _ _ assms(5,6) _ ap(1), of "buffered (wire_of ?es)"] ap(2) show ?thesis
    by (auto simp: buffered_def r l simp del: as_resp_string.simps)
qed

section \<open>Two clients that just connected\<close>

definition two_clients :: "host \<Rightarrow> resp list \<Rightarrow> resp list \<Rightarrow> process" where
  "two_clients h a b = \<lparr>shared = h,
     workers = [\<lparr>peer = new_connection 7 [wire_of [a]] EOF, task = None\<rparr>,
                \<lparr>peer = new_connection 8 [wire_of [b]] EOF, task = None\<rparr>],
     link = None, drawn = {7, 8}, up = True\<rparr>"

lemma new_client_request:
  assumes "wire_request arr" "length (wire_of [arr]) \<le> bufsize"
  shows "\<exists>l. ParseServerCommand (clexer (new_connection c [wire_of [arr]] EOF)) = (Ret (request_of arr), l)"
proof -
  let ?l = "clexer (new_connection c [wire_of [arr]] EOF)" and ?m = "new_lexer (new_reader [] EOF)"
  have "parse ?l = parse (holding ?m (wire_of [arr]))"
    using parse_refill [of ?l "wire_of [arr]" "[]"] assms(2)
    by (simp add: new_connection_def new_lexer_def new_reader_def holding_def)
  then have "ParseServerCommand ?l = ParseServerCommand (holding ?m (wire_of [arr]))"
    by (simp add: ParseServerCommand_def del: as_resp_string.simps)
  then show ?thesis using ParseServerCommand_wire [OF assms(1), of ?m "[]"] assms(2) by simp
qed

lemma two_clients_ask:
  assumes "wire_request a" "length (wire_of [a]) \<le> bufsize" "wire_request b" "length (wire_of [b]) \<le> bufsize"
  shows "asks (two_clients h a b) 0 (fst (request_of a)) a" "asks (two_clients h a b) (Suc 0) (fst (request_of b)) b"
    "queue_at (two_clients h a b) 0 = TxQueue h 7" "queue_at (two_clients h a b) (Suc 0) = TxQueue h 8"
    "up (two_clients h a b)" "shared (two_clients h a b) = h"
    "ident (peer (workers (two_clients h a b) ! 0)) = 7" "ident (peer (workers (two_clients h a b) ! Suc 0)) = 8"
proof -
  have "request_of x = (fst (request_of x), x)" for x by (simp add: request_of_def)
  then show "asks (two_clients h a b) 0 (fst (request_of a)) a" "asks (two_clients h a b) (Suc 0) (fst (request_of b)) b"
    using new_client_request [OF assms(1,2), of 7] new_client_request [OF assms(3,4), of 8]
    by (auto simp: asks_def two_clients_def new_connection_def simp del: as_resp_string.simps)
  show "queue_at (two_clients h a b) 0 = TxQueue h 7" "queue_at (two_clients h a b) (Suc 0) = TxQueue h 8"
    "up (two_clients h a b)" "shared (two_clients h a b) = h"
    "ident (peer (workers (two_clients h a b) ! 0)) = 7" "ident (peer (workers (two_clients h a b) ! Suc 0)) = 8"
    by (simp_all add: queue_at_def two_clients_def new_connection_def)
qed

definition host_with :: "string \<Rightarrow> string \<Rightarrow> host" where
  "host_with key v = fresh_host\<lparr>Store := kv_set 0 key (VString v) 0 new_kv_store\<rparr>"

lemma host_with_sel [simp]:
  "kvalues (Store (host_with key v)) key = Some (VString v)" "expiries (Store (host_with key v)) key = None"
  "TxQueue (host_with key v) = Map.empty" "Published (host_with key v) = []"
  by (simp_all add: host_with_def fresh_host_def init_host_def kv_set_def new_kv_store_def)

lemma two_sizes: "itoa 1 = ''1''" "itoa 2 = ''2''" "itoa 3 = ''3''" "itoa 4 = ''4''"
  by code_simp+

section \<open>Properties\<close>

text \<open>C9. A lost increment: when two clients ask for INCR of one key that holds a number, the
  process has a run in which both are answered the same next number, and the key holds
  that number, as if one of the requests had not been made.\<close>

theorem concurrent_increment_lost:
  assumes "up p" "i \<noteq> j" "asks p i ni ai" "to_lower ni = ''incr''" "bulk_at ai 1 = Ret key" "queue_at p i = None"
    and "asks p j nj aj" "to_lower nj = ''incr''" "bulk_at aj 1 = Ret key" "queue_at p j = None"
    and "kvalues (Store (shared p)) key = Some (VString (itoa n))" "expiries (Store (shared p)) key = None" "in_int64 n"
  shows "\<exists>p'. process_run p p' \<and> answered p p' i (RespInteger (wrap_int (n + 1)))
    \<and> answered p p' j (RespInteger (wrap_int (n + 1)))
    \<and> kvalues (Store (shared p')) key = Some (VString (itoa (wrap_int (n + 1))))"
proof -
  have "i < length (workers p)" "j < length (workers p)" using assms(3,7) by (simp_all add: asks_def)
  with duo_run [OF assms(1,2)] incr_race [OF assms(3-13)] show ?thesis unfolding answered_def by metis
qed

lemma incr_request_asks:
  "wire_request incr_request" "length (wire_of [incr_request]) \<le> bufsize"
  "to_lower (fst (request_of incr_request)) = ''incr''" "bulk_at incr_request 1 = Ret ''k''"
proof -
  have "to_lower ''INCR'' = ''incr''" by code_simp
  then show "to_lower (fst (request_of incr_request)) = ''incr''" by (simp add: incr_request_def request_of_def)
  show "wire_request incr_request" "length (wire_of [incr_request]) \<le> bufsize" "bulk_at incr_request 1 = Ret ''k''"
    using incr_request by (simp_all add: plain_write_def incr_request_def bulk_at_def)
qed

theorem concurrent_increment_lost_witness:
  "\<exists>p'. process_run (two_clients (host_with ''k'' (itoa 5)) incr_request incr_request) p'
    \<and> kvalues (Store (shared p')) ''k'' = Some (VString (itoa 6))"
proof -
  let ?p = "two_clients (host_with ''k'' (itoa 5)) incr_request incr_request"
  note ask = two_clients_ask [OF incr_request_asks(1,2) incr_request_asks(1,2), of "host_with ''k'' (itoa 5)"]
  have w: "in_int64 5" "wrap_int 6 = 6" by (simp_all add: in_int64_def wrap_int_def)
  from concurrent_increment_lost [OF ask(5) _ ask(1) incr_request_asks(3,4) _ ask(2) incr_request_asks(3,4), of 5] show ?thesis
    using w by (auto simp: ask)
qed

text \<open>C18. EXEC is not isolated: a transaction that reads one key twice can be answered with two
  different values, because a SET of another client runs between its commands.\<close>

theorem exec_sees_other_client:
  assumes "up p" "i \<noteq> j" "asks p i ni ai" "to_lower ni = ''exec''" "queue_at p i = Some [get_of key, get_of key]"
    and "asks p j nj (set_of key v')" "to_lower nj = ''set''" "queue_at p j = None"
    and "TxQueue (shared p) 0 = None" "ident (peer (workers p ! i)) \<noteq> 0" "ident (peer (workers p ! j)) \<noteq> ident (peer (workers p ! i))"
    and "kvalues (Store (shared p)) key = Some (VString v)" "expiries (Store (shared p)) key = None"
  shows "\<exists>p'. process_run p p' \<and> answered p p' i (RespArray [RespBulkString v, RespBulkString v'])
    \<and> answered p p' j (RespSimpleString ''OK'')"
proof -
  have "i < length (workers p)" "j < length (workers p)" using assms(3,6) by (simp_all add: asks_def)
  with duo_run [OF assms(1,2)] exec_race [OF assms(3-13)] show ?thesis unfolding answered_def by metis
qed

lemma set_request_asks:
  assumes "v \<in> {''1'', ''2''}"
  shows "wire_request (set_of ''k'' v)" "length (wire_of [set_of ''k'' v]) \<le> bufsize"
    "to_lower (fst (request_of (set_of ''k'' v))) = ''set''"
proof -
  have "to_lower ''SET'' = ''set''" by code_simp
  then show "wire_request (set_of ''k'' v)" "length (wire_of [set_of ''k'' v]) \<le> bufsize"
    "to_lower (fst (request_of (set_of ''k'' v))) = ''set''"
    using assms two_sizes by (auto simp: wire_request_def set_of_def request_of_def)
qed

theorem exec_sees_other_client_witness:
  "\<exists>p'. process_run (two_clients (with_queue 7 [get_of ''k'', get_of ''k''] (host_with ''k'' ''1'')) [RespBulkString ''EXEC''] (set_of ''k'' ''2'')) p'
    \<and> written (peer (workers p' ! 0)) = as_resp_string (RespArray [RespBulkString ''1'', RespBulkString ''2''])"
proof -
  let ?h = "with_queue 7 [get_of ''k'', get_of ''k''] (host_with ''k'' ''1'')" and ?exec = "[RespBulkString ''EXEC'']"
  let ?p = "two_clients ?h ?exec (set_of ''k'' ''2'')"
  have exec: "wire_request ?exec" "length (wire_of [?exec]) \<le> bufsize" "to_lower (fst (request_of ?exec)) = ''exec''"
  proof -
    have "to_lower ''EXEC'' = ''exec''" by code_simp
    then show "wire_request ?exec" "length (wire_of [?exec]) \<le> bufsize" "to_lower (fst (request_of ?exec)) = ''exec''"
      using two_sizes by (auto simp: wire_request_def request_of_def)
  qed
  note ask = two_clients_ask [OF exec(1,2) set_request_asks(1,2) [of "''2''"], of ?h]
  have start: "written (peer (workers ?p ! 0)) = []" by (simp add: two_clients_def new_connection_def)
  from exec_sees_other_client [where v = "''1''", OF ask(5) _ ask(1) exec(3) _ ask(2) set_request_asks(3)] show ?thesis
    using start by (auto simp: ask answered_def simp del: as_resp_string.simps)
qed

text \<open>C19. The leader's order is not the published order: when two clients SET one key, the
  process has a run in which both are answered OK and the key ends with the one value,
  while a follower that applies what was published ends with the other.\<close>

theorem publish_order_diverges:
  assumes "up p" "i \<noteq> j" "asks p i ni (set_of key x)" "to_lower ni = ''set''" "queue_at p i = None"
    and "asks p j nj (set_of key y)" "to_lower nj = ''set''" "queue_at p j = None"
    and "key \<noteq> []" "x \<noteq> []" "y \<noteq> []" "length (wire_of [set_of key y, set_of key x]) \<le> bufsize"
    and "\<forall>k. TxQueue g (ids k) = None" "ProcessedBytes g = 0"
  shows "\<exists>p' events f g'. process_run p p' \<and> answered p p' i (RespSimpleString ''OK'')
    \<and> answered p p' j (RespSimpleString ''OK'') \<and> kvalues (Store (shared p')) key = Some (VString y)
    \<and> Published (shared p') = Published (shared p) @ events
    \<and> replication_run sch ids 0 (new_follower (buffered (concat events))) g = Some (Stop, f, g')
    \<and> kvalues (Store g') key = Some (VString x)"
proof -
  have "i < length (workers p)" "j < length (workers p)" using assms(3,6) by (simp_all add: asks_def)
  with duo_run [OF assms(1,2)] publish_race [OF assms(3-8)] obtain p' where
    "process_run p p'" "answered p p' i (RespSimpleString ''OK'')" "answered p p' j (RespSimpleString ''OK'')"
    "kvalues (Store (shared p')) key = Some (VString y)"
    "Published (shared p') = Published (shared p) @ map (\<lambda>arr. as_resp_string (RespArray arr)) [set_of key y, set_of key x]"
    unfolding answered_def by metis
  with follower_takes_last [OF assms(9-14)] show ?thesis by blast
qed

theorem publish_order_diverges_witness:
  "\<exists>p' events f g'. process_run (two_clients fresh_host (set_of ''k'' ''1'') (set_of ''k'' ''2'')) p'
    \<and> kvalues (Store (shared p')) ''k'' = Some (VString ''2'') \<and> Published (shared p') = events
    \<and> replication_run still_env (\<lambda>_. 9) 0 (new_follower (buffered (concat events))) fresh_host = Some (Stop, f, g')
    \<and> kvalues (Store g') ''k'' = Some (VString ''1'')"
proof -
  note ask = two_clients_ask [OF set_request_asks(1,2) [of "''1''"] set_request_asks(1,2) [of "''2''"], of fresh_host]
  have len: "length (wire_of [set_of ''k'' ''2'', set_of ''k'' ''1'']) \<le> bufsize" using two_sizes by (simp add: set_of_def)
  have new: "TxQueue fresh_host c = None" "ProcessedBytes fresh_host = 0" "Published fresh_host = []" for c
    by (simp_all add: fresh_host_def init_host_def)
  from publish_order_diverges [where g = fresh_host and ids = "\<lambda>_. 9" and sch = still_env,
      OF ask(5) _ ask(1) set_request_asks(3) _ ask(2) set_request_asks(3) _ _ _ _ len]
  show ?thesis by (auto simp: ask new simp del: as_resp_string.simps)
qed

end
