(* ===== verification/Pubsub.thy ===== *)
theory Pubsub
  imports Prelude "HOL-Library.Sublist"
begin

text \<open>
  How events reach the followers: the two goroutines of \<open>PubSubManager.Start\<close>
  (redis-go/app/replication/pubsub_manager.go) and the replication loop of every PSYNC
  connection (redis-go/app/cmd/psync.go), as a step relation. All channels are unbuffered,
  so a send and its receive are one step; the read-write lock is the condition under
  which a step that needs it can be taken. A subscriber is its id, which stands for its
  channel too. What \<open>Conn.Write\<close> answers is open: a write succeeds or fails.
\<close>

section \<open>State\<close>

type_synonym sub_id = nat
type_synonym event = string

text \<open>The subscription goroutine: receiving, or holding an event and waiting for the lock.\<close>

datatype sub_action = Subscribe sub_id | Unsubscribe sub_id

datatype subscription_loop = SIdle | SLocking sub_action

text \<open>The fan-out goroutine: receiving, waiting for the read lock, or sending under it to the
  channels that are left.\<close>

datatype fanout_loop = FIdle | FLocking event | FSending event "sub_id list"

text \<open>The PSYNC handler: before it subscribes, receiving, writing to its connection, leaving
  the loop after a failed write, about to close its channel, and at its end.\<close>

datatype psync_loop = Fresh | Receiving | Writing event | Leaving | Closing | Gone

record pubsub =
  subscribers :: "sub_id set"
  closed :: "sub_id set"
  subscription :: subscription_loop
  fanout :: fanout_loop
  psync :: "sub_id \<Rightarrow> psync_loop"
  delivered :: "sub_id \<Rightarrow> event list"
  accepted :: "event list"
  panicked :: bool

definition start_pubsub :: pubsub where
  "start_pubsub = \<lparr>subscribers = {}, closed = {}, subscription = SIdle, fanout = FIdle,
     psync = (\<lambda>_. Fresh), delivered = (\<lambda>_. []), accepted = [], panicked = False\<rparr>"

definition unlocked :: "pubsub \<Rightarrow> bool" where
  "unlocked s \<longleftrightarrow> (\<forall>ev xs. fanout s \<noteq> FSending ev xs)"

section \<open>Steps\<close>

inductive pubsub_step :: "pubsub \<Rightarrow> pubsub \<Rightarrow> bool" where
  subscribe: "\<not> panicked s \<Longrightarrow> psync s i = Fresh \<Longrightarrow> subscription s = SIdle \<Longrightarrow>
    pubsub_step s (s\<lparr>subscription := SLocking (Subscribe i), psync := (psync s)(i := Receiving)\<rparr>)"
| add_subscriber: "\<not> panicked s \<Longrightarrow> subscription s = SLocking (Subscribe i) \<Longrightarrow> unlocked s \<Longrightarrow>
    pubsub_step s (s\<lparr>subscription := SIdle, subscribers := insert i (subscribers s)\<rparr>)"
| remove_subscriber: "\<not> panicked s \<Longrightarrow> subscription s = SLocking (Unsubscribe i) \<Longrightarrow> unlocked s \<Longrightarrow>
    pubsub_step s (s\<lparr>subscription := SIdle, subscribers := subscribers s - {i}\<rparr>)"
| accept: "\<not> panicked s \<Longrightarrow> fanout s = FIdle \<Longrightarrow>
    pubsub_step s (s\<lparr>fanout := FLocking ev, accepted := accepted s @ [ev]\<rparr>)"
| read_lock: "\<not> panicked s \<Longrightarrow> fanout s = FLocking ev \<Longrightarrow> set xs = subscribers s \<Longrightarrow> distinct xs \<Longrightarrow>
    pubsub_step s (s\<lparr>fanout := FSending ev xs\<rparr>)"
| deliver: "\<not> panicked s \<Longrightarrow> fanout s = FSending ev (i # xs) \<Longrightarrow> psync s i = Receiving \<Longrightarrow> i \<notin> closed s \<Longrightarrow>
    pubsub_step s (s\<lparr>fanout := FSending ev xs, psync := (psync s)(i := Writing ev)\<rparr>)"
| send_on_closed: "\<not> panicked s \<Longrightarrow> fanout s = FSending ev (i # xs) \<Longrightarrow> i \<in> closed s \<Longrightarrow>
    pubsub_step s (s\<lparr>panicked := True\<rparr>)"
| read_unlock: "\<not> panicked s \<Longrightarrow> fanout s = FSending ev [] \<Longrightarrow> pubsub_step s (s\<lparr>fanout := FIdle\<rparr>)"
| write_ok: "\<not> panicked s \<Longrightarrow> psync s i = Writing ev \<Longrightarrow>
    pubsub_step s (s\<lparr>psync := (psync s)(i := Receiving), delivered := (delivered s)(i := delivered s i @ [ev])\<rparr>)"
| write_fails: "\<not> panicked s \<Longrightarrow> psync s i = Writing ev \<Longrightarrow>
    pubsub_step s (s\<lparr>psync := (psync s)(i := Leaving)\<rparr>)"
| unsubscribe: "\<not> panicked s \<Longrightarrow> psync s i = Leaving \<Longrightarrow> subscription s = SIdle \<Longrightarrow>
    pubsub_step s (s\<lparr>subscription := SLocking (Unsubscribe i), psync := (psync s)(i := Closing)\<rparr>)"
| close_channel: "\<not> panicked s \<Longrightarrow> psync s i = Closing \<Longrightarrow>
    pubsub_step s (s\<lparr>closed := insert i (closed s), psync := (psync s)(i := Gone)\<rparr>)"

inductive_cases pubsub_stepE: "pubsub_step s s'"

inductive pubsub_run :: "pubsub \<Rightarrow> pubsub \<Rightarrow> bool" for s0 :: pubsub where
  none: "pubsub_run s0 s0"
| more: "pubsub_run s0 s \<Longrightarrow> pubsub_step s s' \<Longrightarrow> pubsub_run s0 s'"

section \<open>What a subscriber has got\<close>

text \<open>\<open>got\<close> counts an event that is being written; \<open>due\<close> is the number of accepted events
  that have been sent to a subscriber: all but one that is still on its way to it.\<close>

definition got :: "pubsub \<Rightarrow> sub_id \<Rightarrow> event list" where
  "got s i = delivered s i @ (case psync s i of Writing ev \<Rightarrow> [ev] | _ \<Rightarrow> [])"

definition in_flight :: "pubsub \<Rightarrow> sub_id \<Rightarrow> bool" where
  "in_flight s i = (case fanout s of FIdle \<Rightarrow> False | FLocking ev \<Rightarrow> True | FSending ev xs \<Rightarrow> i \<in> set xs)"

definition due :: "pubsub \<Rightarrow> sub_id \<Rightarrow> nat" where
  "due s i = length (accepted s) - (if in_flight s i then 1 else 0)"

definition live :: "pubsub \<Rightarrow> sub_id \<Rightarrow> bool" where
  "live s i \<longleftrightarrow> psync s i = Receiving \<or> (\<exists>ev. psync s i = Writing ev)"

definition pending_event :: "pubsub \<Rightarrow> event option" where
  "pending_event s = (case fanout s of FIdle \<Rightarrow> None | FLocking ev \<Rightarrow> Some ev | FSending ev xs \<Rightarrow> Some ev)"

definition caught_up :: "pubsub \<Rightarrow> sub_id \<Rightarrow> bool" where
  "caught_up s i \<longleftrightarrow> (\<exists>k \<le> due s i. got s i = drop k (take (due s i) (accepted s)))"

text \<open>
  The invariant: an event on its way is the last one accepted; it is sent to subscribers
  only, once each; a subscriber that takes part has got exactly the accepted events from
  the first one on that it was sent, up to those due; anybody has got a contiguous part of
  the accepted events; who has not subscribed has got none.
\<close>

definition flight_ok :: "pubsub \<Rightarrow> bool" where
  "flight_ok s \<longleftrightarrow> (case fanout s of FIdle \<Rightarrow> True
     | FLocking ev \<Rightarrow> accepted s \<noteq> [] \<and> last (accepted s) = ev
     | FSending ev xs \<Rightarrow> accepted s \<noteq> [] \<and> last (accepted s) = ev \<and> set xs \<subseteq> subscribers s \<and> distinct xs)"

definition members_ok :: "pubsub \<Rightarrow> bool" where
  "members_ok s \<longleftrightarrow>
     (\<forall>i. live s i \<longrightarrow> i \<in> subscribers s \<or> subscription s = SLocking (Subscribe i))
   \<and> (\<forall>i. psync s i = Fresh \<longrightarrow> got s i = [] \<and> i \<notin> subscribers s)
   \<and> (\<forall>i. subscription s = SLocking (Subscribe i) \<longrightarrow> got s i = [] \<and> i \<notin> subscribers s \<and> psync s i = Receiving)
   \<and> (\<forall>i. subscription s = SLocking (Unsubscribe i) \<longrightarrow> \<not> live s i)"

definition pubsub_inv :: "pubsub \<Rightarrow> bool" where
  "pubsub_inv s \<longleftrightarrow> flight_ok s \<and> members_ok s
   \<and> (\<forall>i \<in> subscribers s. live s i \<longrightarrow> caught_up s i) \<and> (\<forall>i. sublist (delivered s i) (accepted s))"

lemma pubsub_inv_start: "pubsub_inv start_pubsub"
  by (simp add: pubsub_inv_def start_pubsub_def flight_ok_def members_ok_def live_def got_def)

lemma caught_up_mono:
  "got s' i = got s i \<Longrightarrow> due s' i = due s i \<Longrightarrow> accepted s' = accepted s @ xs \<Longrightarrow> due s i \<le> length (accepted s)
   \<Longrightarrow> caught_up s i \<Longrightarrow> caught_up s' i"
  by (simp add: caught_up_def)

lemma due_le: "due s i \<le> length (accepted s)"
  by (simp add: due_def)

text \<open>What a step leaves alone for one subscriber keeps it caught up.\<close>

lemma caught_up_same:
  "got s' i = got s i \<Longrightarrow> in_flight s' i = in_flight s i \<Longrightarrow> accepted s' = accepted s \<Longrightarrow> caught_up s' i = caught_up s i"
  by (simp add: caught_up_def due_def)

lemma flight_ok_same:
  "fanout s' = fanout s \<Longrightarrow> accepted s' = accepted s \<Longrightarrow> subscribers s' = subscribers s \<Longrightarrow> flight_ok s' = flight_ok s"
  by (simp add: flight_ok_def split: fanout_loop.split)

lemma caught_up_deliver:
  assumes "caught_up s i" "in_flight s i" "accepted s \<noteq> []" "last (accepted s) = ev"
    and "got s' i = got s i @ [ev]" "\<not> in_flight s' i" "accepted s' = accepted s"
  shows "caught_up s' i"
proof -
  let ?n = "length (accepted s) - 1"
  obtain k where k: "k \<le> ?n" "got s i = drop k (take ?n (accepted s))"
    using assms(1,2) by (auto simp: caught_up_def due_def)
  have "accepted s = take ?n (accepted s) @ [ev]"
    using assms(3,4) by (metis append_butlast_last_id butlast_conv_take)
  then have "drop k (accepted s) = drop k (take ?n (accepted s)) @ [ev]"
    using k(1) by (metis append_Nil diff_is_0_eq' drop_0 drop_append length_take min.absorb2 diff_le_self)
  then show ?thesis using k assms(5-7) by (auto simp: caught_up_def due_def intro!: exI [of _ k])
qed

lemma sublist_got:
  assumes "caught_up s i" shows "sublist (got s i) (accepted s)"
proof -
  obtain k n where "got s i = drop k (take n (accepted s))" using assms by (auto simp: caught_up_def)
  then have "accepted s = take k (take n (accepted s)) @ got s i @ drop n (accepted s)"
    by (metis append.assoc append_take_drop_id)
  then show ?thesis by (metis sublist_appendI)
qed

text \<open>The three steps that move an event or a member, each on its own.\<close>

lemma inv_add_subscriber:
  assumes "s' = s\<lparr>subscription := SIdle, subscribers := insert i (subscribers s)\<rparr>"
    and "subscription s = SLocking (Subscribe i)" "unlocked s" "pubsub_inv s"
  shows "pubsub_inv s'"
proof -
  have "caught_up s' j" if "j \<in> subscribers s'" "live s' j" for j
  proof (cases "j = i")
    case True
    then have "got s' j = []" using assms by (auto simp: pubsub_inv_def members_ok_def got_def)
    then show ?thesis using due_le [of s' j] by (auto simp: caught_up_def intro!: exI [of _ "due s' j"])
  next
    case False
    then have "caught_up s j" using assms that by (auto simp: pubsub_inv_def live_def)
    then show ?thesis using assms(1-3) caught_up_same [of s' j s] by (simp add: got_def in_flight_def)
  qed
  then show ?thesis using assms
    by (auto simp: pubsub_inv_def flight_ok_def members_ok_def live_def got_def unlocked_def split: fanout_loop.splits)
qed

lemma inv_deliver:
  assumes "s' = s\<lparr>fanout := FSending ev xs, psync := (psync s)(i := Writing ev)\<rparr>"
    and "fanout s = FSending ev (i # xs)" "psync s i = Receiving" "pubsub_inv s"
  shows "pubsub_inv s'"
proof -
  have fl: "accepted s \<noteq> []" "last (accepted s) = ev" "i \<in> subscribers s" "i \<notin> set xs"
    using assms by (auto simp: pubsub_inv_def flight_ok_def)
  have "caught_up s' j" if "j \<in> subscribers s'" "live s' j" for j
  proof (cases "j = i")
    case True
    have "caught_up s i" using assms fl(3) by (auto simp: pubsub_inv_def live_def)
    then show ?thesis unfolding True
      by (rule caught_up_deliver [of s i ev]) (use assms(1-3) fl in \<open>auto simp: in_flight_def got_def\<close>)
  next
    case False
    then have "caught_up s j" using assms that by (auto simp: pubsub_inv_def live_def)
    then show ?thesis using assms(1-3) False caught_up_same [of s' j s] by (auto simp: got_def in_flight_def)
  qed
  then show ?thesis using assms fl
    by (auto simp: pubsub_inv_def flight_ok_def members_ok_def live_def got_def)
qed

lemma inv_write_ok:
  assumes "s' = s\<lparr>psync := (psync s)(i := Receiving), delivered := (delivered s)(i := delivered s i @ [ev])\<rparr>"
    and "psync s i = Writing ev" "pubsub_inv s"
  shows "pubsub_inv s'"
proof -
  have "members_ok s" "live s i" "psync s i \<noteq> Receiving"
    using assms by (simp_all add: pubsub_inv_def live_def)
  then have i: "i \<in> subscribers s" unfolding members_ok_def by blast
  have same: "got s' j = got s j" for j using assms(1-2) by (simp add: got_def)
  have "sublist (got s i) (accepted s)"
    using assms i by (intro sublist_got) (auto simp: pubsub_inv_def live_def)
  then have "sublist (delivered s' j) (accepted s')" for j
    using assms by (cases "j = i") (auto simp: pubsub_inv_def got_def)
  moreover have "caught_up s' j = caught_up s j" for j
    using same [of j] assms(1-2) by (intro caught_up_same) (auto simp: in_flight_def)
  moreover have "flight_ok s'" using assms flight_ok_same [of s' s] by (simp add: pubsub_inv_def)
  moreover have "members_ok s'" "\<forall>j. live s' j = live s j"
    using assms(1-2) \<open>members_ok s\<close> \<open>live s i\<close> same i by (auto simp: members_ok_def live_def)
  moreover have "subscribers s' = subscribers s" using assms(1-2) by simp
  ultimately show ?thesis using assms(3) unfolding pubsub_inv_def by blast
qed

lemma pubsub_inv_step:
  assumes "pubsub_step s s'" "pubsub_inv s"
  shows "pubsub_inv s'"
  using assms(1)
proof (cases rule: pubsub_step.cases)
  case (subscribe i)
  then show ?thesis using assms(2)
    by (auto simp: pubsub_inv_def flight_ok_def members_ok_def live_def got_def caught_up_def due_def in_flight_def
        split: fanout_loop.splits)
next
  case (add_subscriber i)
  show ?thesis by (rule inv_add_subscriber [OF add_subscriber(1,3,4) assms(2)])
next
  case (remove_subscriber i)
  then show ?thesis using assms(2) caught_up_same [of s' _ s]
    by (auto simp: pubsub_inv_def flight_ok_def members_ok_def live_def got_def in_flight_def unlocked_def
        split: fanout_loop.splits)
next
  case (accept ev)
  have "caught_up s' j" if "caught_up s j" for j
    using that accept by (auto simp: caught_up_def due_def in_flight_def got_def)
  moreover have "sublist (delivered s j) (accepted s @ [ev])" for j
    using assms(2) by (auto simp: pubsub_inv_def sublist_def) (metis append.assoc)
  ultimately show ?thesis using accept assms(2)
    by (auto simp: pubsub_inv_def flight_ok_def members_ok_def live_def got_def)
next
  case (deliver ev i xs)
  show ?thesis by (rule inv_deliver [OF deliver(1,3,4) assms(2)])
next
  case (write_ok i ev)
  show ?thesis by (rule inv_write_ok [OF write_ok(1,3) assms(2)])
next
  case (write_fails i ev)
  have "caught_up s' j = caught_up s j" if "j \<noteq> i" for j
    using write_fails that by (intro caught_up_same) (auto simp: in_flight_def got_def)
  then show ?thesis using write_fails assms(2) flight_ok_same [of s' s]
    by (auto simp: pubsub_inv_def members_ok_def live_def got_def)
next
  case (unsubscribe i)
  then show ?thesis using assms(2) caught_up_same [of s' _ s] flight_ok_same [of s' s]
    by (auto simp: pubsub_inv_def members_ok_def live_def got_def in_flight_def)
next
  case (close_channel i)
  then show ?thesis using assms(2) caught_up_same [of s' _ s] flight_ok_same [of s' s]
    by (auto simp: pubsub_inv_def members_ok_def live_def got_def in_flight_def)
qed (use assms(2) caught_up_same [of s' _ s] in
  \<open>auto simp: pubsub_inv_def flight_ok_def members_ok_def live_def got_def in_flight_def\<close>)

lemma pubsub_run_inv: "pubsub_run start_pubsub s \<Longrightarrow> pubsub_inv s"
  by (induction rule: pubsub_run.induct) (auto intro: pubsub_inv_start pubsub_inv_step)

section \<open>Panics need a failed write\<close>

lemma run_panic_closed:
  "pubsub_run start_pubsub s \<Longrightarrow> (panicked s \<longrightarrow> closed s \<noteq> {}) \<and> (\<forall>i \<in> closed s. psync s i = Gone)"
proof (induction rule: pubsub_run.induct)
  case none
  show ?case by (simp add: start_pubsub_def)
next
  case (more s s')
  from more.hyps(2) more.IH show ?case by (cases rule: pubsub_step.cases) auto
qed

section \<open>Runs of a given state\<close>

lemmas run_by =
  pubsub_run.more [OF _ subscribe] pubsub_run.more [OF _ add_subscriber] pubsub_run.more [OF _ accept]
  pubsub_run.more [OF _ read_lock] pubsub_run.more [OF _ deliver] pubsub_run.more [OF _ read_unlock]
  pubsub_run.more [OF _ write_fails] pubsub_run.more [OF _ unsubscribe] pubsub_run.more [OF _ close_channel]
  pubsub_run.more [OF _ send_on_closed]

text \<open>A follower that subscribed while nothing else goes on.\<close>

definition joined :: "pubsub \<Rightarrow> sub_id \<Rightarrow> pubsub" where
  "joined s i = s\<lparr>psync := (psync s)(i := Receiving), subscribers := insert i (subscribers s)\<rparr>"

lemma run_joined:
  assumes "pubsub_run s0 s" "\<not> panicked s" "psync s i = Fresh" "subscription s = SIdle" "fanout s = FIdle"
  shows "pubsub_run s0 (joined s i)"
proof -
  let ?s1 = "s\<lparr>subscription := SLocking (Subscribe i), psync := (psync s)(i := Receiving)\<rparr>"
  have "pubsub_run s0 ?s1" using assms by (intro run_by(1))
  then have "pubsub_run s0 (?s1\<lparr>subscription := SIdle, subscribers := insert i (subscribers ?s1)\<rparr>)"
    using assms by (intro run_by(2)) (simp_all add: unlocked_def)
  moreover have "?s1\<lparr>subscription := SIdle, subscribers := insert i (subscribers ?s1)\<rparr> = joined s i"
    using assms(4) by (cases s) (simp add: joined_def)
  ultimately show ?thesis by simp
qed

text \<open>An event whose write fails, with the follower the only one it is sent to or the last.\<close>

definition sending :: "pubsub \<Rightarrow> event \<Rightarrow> sub_id list \<Rightarrow> pubsub" where
  "sending s ev xs = s\<lparr>accepted := accepted s @ [ev], fanout := FSending ev xs\<rparr>"

lemma run_sending:
  assumes "pubsub_run s0 s" "\<not> panicked s" "fanout s = FIdle" "set xs = subscribers s" "distinct xs"
  shows "pubsub_run s0 (sending s ev xs)"
proof -
  let ?s1 = "s\<lparr>fanout := FLocking ev, accepted := accepted s @ [ev]\<rparr>"
  have "pubsub_run s0 ?s1" using assms by (intro run_by(3))
  then have "pubsub_run s0 (?s1\<lparr>fanout := FSending ev xs\<rparr>)"
    using assms by (intro run_by(4) [of _ _ ev]) simp_all
  then show ?thesis by (simp add: sending_def)
qed

lemma run_write_fails:
  assumes "pubsub_run s0 s" "\<not> panicked s" "fanout s = FSending ev (i # xs)" "psync s i = Receiving" "i \<notin> closed s"
  shows "pubsub_run s0 (s\<lparr>fanout := FSending ev xs, psync := (psync s)(i := Leaving)\<rparr>)"
proof -
  have "pubsub_run s0 (s\<lparr>fanout := FSending ev xs, psync := (psync s)(i := Writing ev)\<rparr>)"
    using assms by (intro run_by(5))
  from run_by(7) [OF this, of i ev] assms(2) show ?thesis by simp
qed

lemma run_close:
  assumes "pubsub_run s0 s" "\<not> panicked s" "psync s i = Leaving" "subscription s = SIdle"
  shows "pubsub_run s0 (s\<lparr>subscription := SLocking (Unsubscribe i), closed := insert i (closed s),
    psync := (psync s)(i := Gone)\<rparr>)"
proof -
  have "pubsub_run s0 (s\<lparr>subscription := SLocking (Unsubscribe i), psync := (psync s)(i := Closing)\<rparr>)"
    using assms by (intro run_by(8))
  from run_by(9) [OF this, of i] assms(2) show ?thesis by simp
qed

lemma run_unlock:
  "pubsub_run s0 s \<Longrightarrow> \<not> panicked s \<Longrightarrow> fanout s = FSending ev [] \<Longrightarrow> pubsub_run s0 (s\<lparr>fanout := FIdle\<rparr>)"
  by (rule run_by(6))

section \<open>Properties\<close>

text \<open>C5. Order: in every run, what has been written to a follower is a contiguous part of the
  accepted events, in their order and without repetition; and a follower that is
  subscribed and waiting while no event is under way has been written every event from
  its first one to the last.\<close>

theorem followers_get_events_in_order:
  assumes "pubsub_run start_pubsub s"
  shows "sublist (delivered s i) (accepted s)
    \<and> (i \<in> subscribers s \<and> psync s i = Receiving \<and> fanout s = FIdle \<longrightarrow> (\<exists>k. delivered s i = drop k (accepted s)))"
proof -
  have inv: "pubsub_inv s" by (rule pubsub_run_inv [OF assms])
  have "\<exists>k. delivered s i = drop k (accepted s)"
    if "i \<in> subscribers s" "psync s i = Receiving" "fanout s = FIdle"
  proof -
    have "caught_up s i" using inv that by (simp add: pubsub_inv_def live_def)
    then show ?thesis using that by (auto simp: caught_up_def due_def in_flight_def got_def)
  qed
  with inv show ?thesis by (simp add: pubsub_inv_def)
qed

lemma one_failed_run:
  "pubsub_run start_pubsub ((sending (joined start_pubsub 0) ev [0])\<lparr>fanout := FIdle, psync := (psync (joined start_pubsub 0))(0 := Leaving)\<rparr>)"
proof -
  let ?a = "joined start_pubsub 0" and ?b = "sending (joined start_pubsub 0) ev [0]"
  have a: "pubsub_run start_pubsub ?a"
    by (rule run_joined [OF pubsub_run.none]) (simp_all add: start_pubsub_def)
  have "pubsub_run start_pubsub ?b"
    by (rule run_sending [OF a]) (simp_all add: joined_def start_pubsub_def)
  then have "pubsub_run start_pubsub (?b\<lparr>fanout := FSending ev [], psync := (psync ?b)(0 := Leaving)\<rparr>)"
    by (rule run_write_fails) (simp_all add: sending_def joined_def start_pubsub_def)
  from run_unlock [OF this] show ?thesis by (simp add: sending_def joined_def start_pubsub_def)
qed

theorem followers_get_events_in_order_witness:
  "sublist (delivered (joined start_pubsub 0) 0) (accepted (joined start_pubsub 0))
   \<and> (\<exists>k. delivered (joined start_pubsub 0) 0 = drop k (accepted (joined start_pubsub 0)))"
proof -
  have "pubsub_run start_pubsub (joined start_pubsub 0)"
    by (rule run_joined [OF pubsub_run.none]) (simp_all add: start_pubsub_def)
  from followers_get_events_in_order [OF this, of 0] show ?thesis by (simp add: joined_def start_pubsub_def)
qed

text \<open>As long as no write to a follower has failed, the process does not panic on a closed
  channel.\<close>

theorem no_panic_without_failed_write:
  assumes "pubsub_run start_pubsub s" "\<forall>i. psync s i \<notin> {Leaving, Closing, Gone}"
  shows "\<not> panicked s"
  using run_panic_closed [OF assms(1)] assms(2) by force

theorem no_panic_without_failed_write_witness:
  "\<not> panicked (joined start_pubsub 0)"
proof (rule no_panic_without_failed_write)
  show "pubsub_run start_pubsub (joined start_pubsub 0)"
    by (rule run_joined [OF pubsub_run.none]) (simp_all add: start_pubsub_def)
qed (simp add: joined_def start_pubsub_def)

text \<open>C34. One follower whose connection breaks can end the process: it closes its channel
  while the next event is being sent to it, or before the lock let the subscription
  goroutine remove it.\<close>

theorem broken_follower_panics_leader:
  "\<exists>s. pubsub_run start_pubsub s \<and> panicked s \<and> accepted s = [ev1, ev2] \<and> psync s = (\<lambda>_. Fresh)(0 := Gone)"
proof -
  let ?c = "(sending (joined start_pubsub 0) ev1 [0])\<lparr>fanout := FIdle, psync := (psync (joined start_pubsub 0))(0 := Leaving)\<rparr>"
  let ?d = "sending ?c ev2 [0]"
  let ?e = "?d\<lparr>subscription := SLocking (Unsubscribe 0), closed := insert 0 (closed ?d), psync := (psync ?d)(0 := Gone)\<rparr>"
  have d: "pubsub_run start_pubsub ?d"
    by (rule run_sending [OF one_failed_run]) (simp_all add: sending_def joined_def start_pubsub_def)
  have "pubsub_run start_pubsub ?e"
    by (rule run_close [OF d]) (simp_all add: sending_def joined_def start_pubsub_def)
  then have "pubsub_run start_pubsub (?e\<lparr>panicked := True\<rparr>)"
    by (rule run_by(10)) (simp_all add: sending_def joined_def start_pubsub_def)
  moreover have "panicked (?e\<lparr>panicked := True\<rparr>) \<and> accepted (?e\<lparr>panicked := True\<rparr>) = [ev1, ev2]
      \<and> psync (?e\<lparr>panicked := True\<rparr>) = (\<lambda>_. Fresh)(0 := Gone)"
    by (simp add: sending_def joined_def start_pubsub_def)
  ultimately show ?thesis by blast
qed

text \<open>C35. Two followers whose connections break can stop replication for ever: a state is
  reached without a panic from which no goroutine can go on, with an event accepted and
  not sent; the handlers of all later writes wait for ever.\<close>

theorem broken_followers_deadlock:
  "\<exists>s. pubsub_run start_pubsub s \<and> \<not> panicked s \<and> (\<exists>xs. fanout s = FSending ev2 xs \<and> xs \<noteq> []) \<and> (\<forall>s'. \<not> pubsub_step s s')"
proof -
  let ?a = "joined (joined start_pubsub 0) 1"
  let ?b = "(sending ?a ev1 [0, 1])\<lparr>fanout := FIdle, psync := (psync ?a)(0 := Leaving, 1 := Leaving)\<rparr>"
  let ?c = "sending ?b ev2 [1, 0]"
  let ?d = "?c\<lparr>subscription := SLocking (Unsubscribe 0), closed := insert 0 (closed ?c), psync := (psync ?c)(0 := Gone)\<rparr>"
  have j: "pubsub_run start_pubsub (joined start_pubsub 0)"
    by (rule run_joined [OF pubsub_run.none]) (simp_all add: start_pubsub_def)
  have a: "pubsub_run start_pubsub ?a"
    by (rule run_joined [OF j]) (simp_all add: joined_def start_pubsub_def)
  have "pubsub_run start_pubsub (sending ?a ev1 [0, 1])"
    by (rule run_sending [OF a]) (auto simp: joined_def start_pubsub_def)
  then have "pubsub_run start_pubsub ((sending ?a ev1 [0, 1])\<lparr>fanout := FSending ev1 [1], psync := (psync ?a)(0 := Leaving)\<rparr>)"
    using run_write_fails [of start_pubsub "sending ?a ev1 [0, 1]" ev1 0 "[1]"]
    by (simp add: sending_def joined_def start_pubsub_def)
  then have "pubsub_run start_pubsub ((sending ?a ev1 [0, 1])\<lparr>fanout := FSending ev1 [], psync := (psync ?a)(0 := Leaving, 1 := Leaving)\<rparr>)"
    using run_write_fails [of start_pubsub "(sending ?a ev1 [0, 1])\<lparr>fanout := FSending ev1 [1], psync := (psync ?a)(0 := Leaving)\<rparr>" ev1 1 "[]"]
    by (simp add: sending_def joined_def start_pubsub_def)
  from run_unlock [OF this] have b: "pubsub_run start_pubsub ?b"
    by (simp add: sending_def joined_def start_pubsub_def)
  have c: "pubsub_run start_pubsub ?c"
    by (rule run_sending [OF b]) (auto simp: sending_def joined_def start_pubsub_def)
  have d: "pubsub_run start_pubsub ?d"
    by (rule run_close [OF c]) (simp_all add: sending_def joined_def start_pubsub_def)
  moreover have "\<not> pubsub_step ?d s'" for s'
    by (auto simp: sending_def joined_def start_pubsub_def unlocked_def elim!: pubsub_stepE split: if_splits)
  ultimately show ?thesis
    by (intro exI [of _ ?d]) (auto simp: sending_def joined_def start_pubsub_def)
qed

end
