(* ===== verification/Kv_Contracts.thy ===== *)
theory Kv_Contracts
  imports Transactions
begin

text \<open>
  Contracts of the store and of the handlers over it: streams as an append-only log of
  identified entries, which \<open>SetStream\<close> refines; counting with INCR within 64 bits; and
  the requests that cannot crash the server.
\<close>

section \<open>Streams as logs\<close>

text \<open>
  The abstract log: identifiers are pairs of unbounded numbers, and an entry is added under
  the identifier asked for or, for an open sequence number, under the next one of its time.
  An identifier must be positive, newer than the last one and fit 64 bits.
\<close>

type_synonym log = "(stream_id \<times> (string \<rightharpoonup> go_value)) list"

datatype log_result = Refused_Zero | Refused_Small | Added stream_id log

definition log_id :: "int \<times> int \<times> bool \<Rightarrow> log \<Rightarrow> stream_id" where
  "log_id req l =
     (case req of (t, s, open_seq) \<Rightarrow>
       if open_seq \<and> l \<noteq> [] \<and> sid_time (fst (last l)) = t
       then SID t (sid_seq (fst (last l)) + 1) else SID t s)"

definition log_add :: "int \<times> int \<times> bool \<Rightarrow> (string \<rightharpoonup> go_value) \<Rightarrow> log \<Rightarrow> log_result" where
  "log_add req vs l =
     (let i = log_id req l in
      if fst req \<le> 0 \<and> fst (snd req) \<le> 0 then Refused_Zero
      else if l \<noteq> [] \<and> (i \<le> fst (last l) \<or> max_int < sid_seq i) then Refused_Small
      else Added i (l @ [(i, vs)]))"

definition log_of :: "stream \<Rightarrow> log" where
  "log_of s = map (\<lambda>e. (eid e, Values e)) s"

definition logs_of :: "kv_store \<Rightarrow> string \<Rightarrow> log option" where
  "logs_of k key = map_option log_of (stream_at k key)"

lemma stream_at_put_stream: "stream_at (put_stream sk s k) = (stream_at k)(sk \<mapsto> s)"
  by (auto simp: stream_at_def)

lemma wrap_int_Suc:
  "in_int64 n \<Longrightarrow> wrap_int (n + 1) = (if n = max_int then min_int else n + 1)"
  by (auto simp: wrap_int_def in_int64_def)

lemma settled_log_id:
  assumes "stream_ok cast"
  shows "(cast \<noteq> [] \<and> SID t (settled_seq cast t s w) \<le> eid (last cast)) \<longleftrightarrow>
      (log_of cast \<noteq> [] \<and> (log_id (t, s, w) (log_of cast) \<le> fst (last (log_of cast))
        \<or> max_int < sid_seq (log_id (t, s, w) (log_of cast)) \<and> w \<and> t = sid_time (eid (last cast))))"
    "\<not> (cast \<noteq> [] \<and> SID t (settled_seq cast t s w) \<le> eid (last cast)) \<Longrightarrow>
      log_id (t, s, w) (log_of cast) = SID t (settled_seq cast t s w)"
proof -
  have last: "fst (last (log_of cast)) = eid (last cast)" if "cast \<noteq> []"
    using that by (simp add: log_of_def last_map)
  have range: "0 \<le> sid_seq (eid (last cast)) \<and> sid_seq (eid (last cast)) \<le> max_int" if "cast \<noteq> []"
  proof -
    from assms that obtain lt ls where "id_range lt ls" "eid (last cast) = SID lt ls" by (rule stream_ok_last)
    then show ?thesis by (simp add: id_range_def)
  qed
  have wrap: "wrap_int (sid_seq (eid (last cast)) + 1) =
      (if sid_seq (eid (last cast)) = max_int then min_int else sid_seq (eid (last cast)) + 1)" if "cast \<noteq> []"
    by (rule wrap_int_Suc) (use range [OF that] in \<open>simp add: in_int64_def\<close>)
  show "(cast \<noteq> [] \<and> SID t (settled_seq cast t s w) \<le> eid (last cast)) \<longleftrightarrow>
      (log_of cast \<noteq> [] \<and> (log_id (t, s, w) (log_of cast) \<le> fst (last (log_of cast))
        \<or> max_int < sid_seq (log_id (t, s, w) (log_of cast)) \<and> w \<and> t = sid_time (eid (last cast))))"
    using last range wrap
    by (cases "cast = []") (auto simp: log_id_def settled_seq_def log_of_def less_eq_stream_id_def)
  show "\<not> (cast \<noteq> [] \<and> SID t (settled_seq cast t s w) \<le> eid (last cast)) \<Longrightarrow>
      log_id (t, s, w) (log_of cast) = SID t (settled_seq cast t s w)"
    using last range wrap
    by (cases "cast = []") (auto simp: log_id_def settled_seq_def log_of_def less_eq_stream_id_def split: if_splits)
qed

text \<open>C3. Refinement: \<open>SetStream\<close> on a well-formed store does to the stream of its key what
  adding to the log does, answer and refusal included, and to the log of no other key
  anything; the sequence number that would not fit 64 bits is refused, not wrapped.\<close>

theorem SetStream_refines_log_add:
  assumes "store_ok k" "logs_of k sk = Some l" "SetStream ms sk seqkey key v k = (res, k')"
  shows "(res, logs_of k') =
    (case log_add (requested_id ms seqkey) [key \<mapsto> v] l of
       Refused_Zero \<Rightarrow> (Err err_xadd_zero, logs_of k)
     | Refused_Small \<Rightarrow> (Err err_xadd_small, logs_of k)
     | Added i l' \<Rightarrow> (Ret (render_id (sid_time i) (sid_seq i)), (logs_of k)(sk \<mapsto> l')))"
proof -
  from assms(2) obtain cast where cast: "stream_at k sk = Some cast" "l = log_of cast"
    by (auto simp: logs_of_def)
  then have ok: "stream_ok cast" using assms(1)
    by (auto simp: stream_at_def store_ok_def split: option.splits go_value.splits)
  obtain t s w where r: "requested_id ms seqkey = (t, s, w)" by (metis prod_cases3)
  let ?s = "settled_seq cast t s w" and ?i = "log_id (t, s, w) l"
  let ?old = "cast \<noteq> [] \<and> SID t ?s \<le> eid (last cast)"
  have keep: "logs_of (put_stream sk cast k) = logs_of k"
    using cast(1) by (auto simp: logs_of_def stream_at_put_stream)
  have added: "logs_of (put_stream sk (cast @ [StreamEntry (render_id t ?s) [key \<mapsto> v]]) k)
      = (logs_of k)(sk \<mapsto> l @ [(SID t ?s, [key \<mapsto> v])])" if "id_range t ?s"
    using that by (auto simp: logs_of_def stream_at_put_stream log_of_def cast(2))
  note eq = SetStream_eq [OF cast(1) ok r, of key v]
  have s_max: "s \<le> max_int" if "\<not> (t \<le> 0 \<and> s \<le> 0)"
    using requested_id_range [OF r that] by (simp add: id_range_def)
  have small: "?old \<longleftrightarrow> l \<noteq> [] \<and> (?i \<le> fst (last l) \<or> max_int < sid_seq ?i)" if "\<not> (t \<le> 0 \<and> s \<le> 0)"
    using settled_log_id(1) [OF ok, of t s w] s_max [OF that]
    by (auto simp: cast(2) log_id_def log_of_def last_map)
  consider (zero) "t \<le> 0 \<and> s \<le> 0" | (old) "\<not> (t \<le> 0 \<and> s \<le> 0)" "?old"
    | (new) "\<not> (t \<le> 0 \<and> s \<le> 0)" "\<not> ?old" by blast
  then show ?thesis
  proof cases
    case zero
    then show ?thesis using assms(3) eq keep r by (auto simp: log_add_def Let_def)
  next
    case old
    then have "log_add (t, s, w) [key \<mapsto> v] l = Refused_Small"
      using small [OF old(1)] by (simp add: log_add_def Let_def)
    then show ?thesis using old assms(3) eq keep r by (auto simp: Let_def)
  next
    case new
    have i: "?i = SID t ?s" using settled_log_id(2) [OF ok new(2)] cast(2) by simp
    have "id_range t ?s"
      using new requested_id_range [OF r new(1)] by (intro settled_seq_range [OF _ ok]) auto
    moreover have "log_add (t, s, w) [key \<mapsto> v] l = Added (SID t ?s) (l @ [(SID t ?s, [key \<mapsto> v])])"
      using small [OF new(1)] new i by (simp add: log_add_def Let_def)
    ultimately show ?thesis using new assms(3) eq r added by (auto simp: Let_def)
  qed
qed

theorem SetStream_refines_log_add_witness:
  "\<exists>k'. SetStream 7 ''st'' ''5-1'' ''f'' (VString ''v'') new_kv_store = (Ret ''5-1'', k')
    \<and> logs_of k' = (logs_of new_kv_store)(''st'' \<mapsto> [(SID 5 1, [''f'' \<mapsto> VString ''v''])])"
proof -
  have id: "''5-1'' = render_id 5 1" by code_simp
  have r: "requested_id 7 ''5-1'' = (5, 1, False)"
    unfolding id by (simp add: requested_id_def split_render id_range_def in_int64_def)
  obtain res k' where k': "SetStream 7 ''st'' ''5-1'' ''f'' (VString ''v'') new_kv_store = (res, k')" by fastforce
  have "logs_of new_kv_store ''st'' = Some []" by (simp add: logs_of_def stream_at_def new_kv_store_def log_of_def)
  have "log_add (requested_id 7 ''5-1'') [''f'' \<mapsto> VString ''v''] [] = Added (SID 5 1) [(SID 5 1, [''f'' \<mapsto> VString ''v''])]"
    by (simp add: r log_add_def log_id_def Let_def)
  with SetStream_refines_log_add [OF store_ok_new \<open>logs_of new_kv_store ''st'' = Some []\<close> k']
  have "res = Ret ''5-1'' \<and> logs_of k' = (logs_of new_kv_store)(''st'' \<mapsto> [(SID 5 1, [''f'' \<mapsto> VString ''v''])])"
    by (simp add: id [symmetric])
  with k' show ?thesis by blast
qed

section \<open>Counting\<close>

definition incr_words :: "string \<Rightarrow> resp list" where
  "incr_words key = [RespBulkString ''INCR'', RespBulkString key]"

definition after_incrs :: "env \<Rightarrow> string \<Rightarrow> nat \<Rightarrow> host \<Rightarrow> host" where
  "after_incrs e key m h = ((\<lambda>h. snd (HandleIncr e (incr_words key) h)) ^^ m) h"

lemma HandleIncr_number:
  assumes "kv_live (now e) key (Store h)" "kvalues (Store h) key = Some (VString v)" "atoi v = (n, None)"
  shows "HandleIncr e (incr_words key) h = (reply (RespInteger (wrap_int (n + 1))),
    publish (as_resp_string (RespArray (incr_words key)))
      (h\<lparr>Store := kv_set (now e) key (VString (itoa (wrap_int (n + 1)))) 0 (Store h)\<rparr>))"
  using assms
  by (auto simp: HandleIncr_def incr_words_def bulk_at_def with_ret_def kv_get_def kv_live_def Let_def
      split: option.splits)

lemma wrap_int_step: "wrap_int (wrap_int n + 1) = wrap_int (n + 1)"
  by (simp add: wrap_int_def algebra_simps mod_simps)

lemma kv_live_set_0 [simp]: "kv_live t key (kv_set ms k v 0 s) = kv_live t key s"
  by (simp add: kv_live_def)

text \<open>C23. INCR counts in 64 bits: after \<open>m\<close> of them on a key that holds the decimal form of
  \<open>n\<close>, the key holds \<open>n + m\<close> reduced to the signed 64-bit range, which the next answers one
  more than; past the largest number the count goes on at the smallest.\<close>

theorem incr_counts_within_64_bits:
  assumes "kv_live (now e) key (Store h)" "kvalues (Store h) key = Some (VString (itoa n))" "in_int64 n"
  shows "kvalues (Store (after_incrs e key m h)) key = Some (VString (itoa (wrap_int (n + int m))))
    \<and> fst (HandleIncr e (incr_words key) (after_incrs e key m h)) = reply (RespInteger (wrap_int (n + int m + 1)))
    \<and> min_int \<le> wrap_int (n + int m) \<and> wrap_int (n + int m) \<le> max_int"
proof -
  have inv: "kv_live (now e) key (Store (after_incrs e key m h))
    \<and> kvalues (Store (after_incrs e key m h)) key = Some (VString (itoa (wrap_int (n + int m))))" for m
  proof (induction m)
    case 0
    then show ?case using assms by (simp add: after_incrs_def wrap_int_id)
  next
    case (Suc m)
    have "atoi (itoa (wrap_int (n + int m))) = (wrap_int (n + int m), None)"
      by (rule atoi_itoa [OF wrap_int_range])
    moreover have "wrap_int (n + int (Suc m)) = wrap_int (n + int m + 1)" by (simp add: add_ac)
    ultimately show ?case
      using HandleIncr_number [OF conjunct1 [OF Suc.IH] conjunct2 [OF Suc.IH]] Suc.IH
      by (simp add: after_incrs_def publish_def wrap_int_step kv.look_put del: of_nat_Suc)
  qed
  have "atoi (itoa (wrap_int (n + int m))) = (wrap_int (n + int m), None)"
    by (rule atoi_itoa [OF wrap_int_range])
  from HandleIncr_number [OF conjunct1 [OF inv] conjunct2 [OF inv] this]
  have "fst (HandleIncr e (incr_words key) (after_incrs e key m h)) = reply (RespInteger (wrap_int (n + int m + 1)))"
    by (simp add: wrap_int_step del: as_resp_string.simps)
  then show ?thesis using inv wrap_int_range [of "n + int m"] by (simp add: in_int64_def del: as_resp_string.simps)
qed

theorem incr_counts_within_64_bits_witness:
  "kvalues (Store (after_incrs (still_env 0) ''k'' 2
      (fresh_host\<lparr>Store := kv_set 0 ''k'' (VString (itoa max_int)) 0 new_kv_store\<rparr>))) ''k'' = Some (VString (itoa (min_int + 1)))"
proof -
  let ?h = "fresh_host\<lparr>Store := kv_set 0 ''k'' (VString (itoa max_int)) 0 new_kv_store\<rparr>"
  have "kv_live (now (still_env 0)) ''k'' (Store ?h)" by (simp add: kv_live_def new_kv_store_def kv_set_def)
  moreover have "kvalues (Store ?h) ''k'' = Some (VString (itoa max_int))" by (simp add: kv_set_def)
  moreover have "in_int64 max_int" by (simp add: in_int64_def)
  moreover have "wrap_int (max_int + int 2) = min_int + 1" by (simp add: wrap_int_def)
  ultimately show ?thesis using incr_counts_within_64_bits [of "still_env 0" "''k''" ?h max_int 2] by metis
qed

section \<open>Requests that cannot crash the server\<close>

text \<open>
  How many words a command needs at least. XRANGE is not in the list: it can crash on a
  request with enough words (\<open>GetStream_crossed\<close>, \<open>GetStream_empty\<close>). Neither is EXEC,
  which is as safe as what is queued: \<open>proper_exec\<close>.
\<close>

definition words_needed :: "string \<Rightarrow> nat option" where
  "words_needed name =
     (if name \<in> {''ping'', ''wait'', ''info'', ''keys'', ''multi'', ''discard'', ''psync'', ''echo''} then Some 1
      else if name \<in> {''get'', ''incr'', ''type'', ''replconf'', ''xread''} then Some 2
      else if name \<in> {''config'', ''set''} then Some 3
      else if name = ''xadd'' then Some 5
      else None)"

definition proper_request :: "string \<Rightarrow> resp list \<Rightarrow> bool" where
  "proper_request name args \<longleftrightarrow>
     (\<forall>a \<in> set args. \<exists>s. a = RespBulkString s)
     \<and> (case words_needed (to_lower name) of Some n \<Rightarrow> n \<le> length args | None \<Rightarrow> False)
     \<and> (to_lower name = ''set'' \<longrightarrow> length args = 4 \<longrightarrow> bulk_at args 3 \<noteq> Ret ''px'')"

definition proper_exec :: "host \<Rightarrow> uuid \<Rightarrow> string \<Rightarrow> bool" where
  "proper_exec h c name \<longleftrightarrow> to_lower name = ''exec''
     \<and> (case TxQueue h c of None \<Rightarrow> True | Some q \<Rightarrow> list_all (\<lambda>x. proper_request (qcommand x) (qarr x)) q)"

text \<open>The order a map is iterated in lists keys of the map only.\<close>

definition env_ok :: "env \<Rightarrow> bool" where
  "env_ok e \<longleftrightarrow> (\<forall>s. finite s \<longrightarrow> set (order e s) \<subseteq> s)"

lemma bulk_at_proper:
  assumes "\<forall>a \<in> set args. \<exists>s. a = RespBulkString s" "i < length args"
  obtains s where "bulk_at args i = Ret s"
  using assms nth_mem [OF assms(2)] by (fastforce simp: bulk_at_def)

lemma bulk_at_no_panic: "\<forall>a \<in> set args. \<exists>s. a = RespBulkString s \<Longrightarrow> i < length args \<Longrightarrow> bulk_at args i \<noteq> Panic"
  by (metis bulk_at_proper go.distinct(3))

lemma go_bind_no_panic: "m \<noteq> Panic \<Longrightarrow> (\<And>a. m = Ret a \<Longrightarrow> f a \<noteq> Panic) \<Longrightarrow> go_bind m f \<noteq> Panic"
  by (cases m) auto

lemma go_mapM_no_panic: "(\<And>x. x \<in> set xs \<Longrightarrow> f x \<noteq> Panic) \<Longrightarrow> go_mapM f xs \<noteq> Panic"
proof (induction xs)
  case (Cons x xs)
  then show ?case by (cases "f x"; cases "go_mapM f xs") auto
qed simp

lemma entry_resp_no_panic:
  assumes "env_ok e" "Values entry = [k \<mapsto> VString v]"
  shows "entry_resp (order e) entry \<noteq> Panic"
proof -
  have "set (order e (dom (Values entry))) \<subseteq> {k}" using assms by (simp add: env_ok_def)
  then have "go_mapM (\<lambda>k. case Values entry k of Some (VString v) \<Rightarrow> Ret [RespBulkString k, RespBulkString v]
      | _ \<Rightarrow> Panic) (order e (dom (Values entry))) \<noteq> Panic"
    using assms(2) by (intro go_mapM_no_panic) auto
  then show ?thesis
    by (cases "go_mapM (\<lambda>k. case Values entry k of Some (VString v) \<Rightarrow> Ret [RespBulkString k, RespBulkString v]
      | _ \<Rightarrow> Panic) (order e (dom (Values entry)))") (simp_all add: entry_resp_def resp_arr_from_map_def)
qed

lemma XReadStream_part:
  "XReadStream sk start k = Ret r \<Longrightarrow> \<exists>s. kvalues k sk = Some (VStream s) \<and> set r \<subseteq> set s"
  by (fastforce simp: XReadStream_def slice_def dest: in_set_dropD in_set_takeD
      split: option.splits go_value.splits if_splits)

lemma xread_entries_no_panic:
  assumes "typed_store s" "env_ok e" "XReadStream key rng s = Ret r"
  shows "go_mapM (entry_resp (order e)) r \<noteq> Panic"
proof (rule go_mapM_no_panic)
  fix x assume x: "x \<in> set r"
  from XReadStream_part [OF assms(3)] obtain st where st: "kvalues s key = Some (VStream st)" "x \<in> set st"
    using x by blast
  from assms(1) st(1) have "value_typed (VStream st)" unfolding typed_store_def by blast
  with st(2) obtain k v where "Values x = [k \<mapsto> VString v]" by (auto simp: list_all_iff)
  then show "entry_resp (order e) x \<noteq> Panic" by (rule entry_resp_no_panic [OF assms(2)])
qed

lemma xread_loop_no_panic:
  assumes "typed_store s" "env_ok e"
  shows "length keys \<le> length ranges \<Longrightarrow> xread_loop (order e) s keys ranges \<noteq> Panic"
proof (induction keys arbitrary: ranges)
  case (Cons key keys)
  then obtain rng rngs where r: "ranges = rng # rngs" by (cases ranges) auto
  with Cons have "xread_loop (order e) s keys rngs \<noteq> Panic" by simp
  moreover have "go_mapM (entry_resp (order e)) es \<noteq> Panic" if "XReadStream key rng s = Ret es" for es
    using xread_entries_no_panic [OF assms that] .
  ultimately show ?case unfolding r xread_loop.simps
    by (intro go_bind_no_panic XReadStream_no_panic) simp_all
qed simp

lemma length_go_mapM: "go_mapM f xs = Ret ys \<Longrightarrow> length ys = length xs"
  by (induction xs arbitrary: ys) auto

lemma with_ret_no_crash:
  "m \<noteq> Panic \<Longrightarrow> (\<And>a. m = Ret a \<Longrightarrow> fst (f a) \<noteq> Crash) \<Longrightarrow> fst (with_ret m h f) \<noteq> Crash"
  by (cases m) (simp_all add: with_ret_def)

lemma in_upt: "x \<in> set [a..<b] \<Longrightarrow> x < b"
  by simp

lemma HandleXRead_no_crash:
  assumes "\<forall>a \<in> set args. \<exists>s. a = RespBulkString s" "2 \<le> length args" "typed_store (Store h)" "env_ok e"
  shows "fst (HandleXRead e args h) \<noteq> Crash"
proof -
  let ?n = "(length args - 2) div 2"
  have keys: "go_mapM (bulk_at args) [2..<2 + ?n] \<noteq> Panic" "go_mapM (bulk_at args) [?n + 2..<length args] \<noteq> Panic"
    by (rule go_mapM_no_panic, rule bulk_at_no_panic [OF assms(1)], drule in_upt, use assms(2) in arith)+
  have "length (keys :: string list) \<le> length (ranges :: string list)"
    if "go_mapM (bulk_at args) [2..<2 + ?n] = Ret keys" "go_mapM (bulk_at args) [?n + 2..<length args] = Ret ranges"
    for keys ranges
    using that [THEN length_go_mapM] unfolding length_upt by arith
  then have loop: "xread_loop (order e) (Store h) keys ranges \<noteq> Panic"
    if "go_mapM (bulk_at args) [2..<2 + ?n] = Ret keys" "go_mapM (bulk_at args) [?n + 2..<length args] = Ret ranges"
    for keys ranges
    using that by (intro xread_loop_no_panic [OF assms(3,4)]) blast
  show ?thesis unfolding HandleXRead_def Let_def
    by (intro with_ret_no_crash keys loop) simp_all
qed

lemma set_expiry_no_panic:
  assumes "\<forall>a \<in> set args. \<exists>s. a = RespBulkString s" "length args = 4 \<longrightarrow> bulk_at args 3 \<noteq> Ret ''px''"
  shows "set_expiry args \<noteq> Panic"
proof -
  consider "length args \<le> 3" | (four) "length args = 4" | (more) "5 \<le> length args" by linarith
  then show ?thesis
  proof cases
    case four
    then obtain a where "bulk_at args 3 = Ret a" using bulk_at_proper [OF assms(1), of 3] by auto
    with four assms(2) show ?thesis by (simp add: set_expiry_def)
  next
    case more
    then obtain a b where "bulk_at args 3 = Ret a" "bulk_at args 4 = Ret b"
      using bulk_at_proper [OF assms(1), of 3] bulk_at_proper [OF assms(1), of 4] by fastforce
    then show ?thesis by (auto simp: set_expiry_def split: prod.splits option.splits)
  qed (simp add: set_expiry_def)
qed

lemma HandleSet_no_crash:
  assumes "\<forall>a \<in> set args. \<exists>s. a = RespBulkString s" "3 \<le> length args"
    and "length args = 4 \<longrightarrow> bulk_at args 3 \<noteq> Ret ''px''"
  shows "fst (HandleSet e args h) \<noteq> Crash"
  using bulk_at_proper [OF assms(1), of 1] bulk_at_proper [OF assms(1), of 2] set_expiry_no_panic [OF assms(1,3)] assms(2)
  by (fastforce simp: HandleSet_def with_ret_def split: go.splits)

lemma HandleXAdd_no_crash:
  assumes "\<forall>a \<in> set args. \<exists>s. a = RespBulkString s" "5 \<le> length args" "store_ok (Store h)"
  shows "fst (HandleXAdd e args h) \<noteq> Crash"
proof -
  obtain a where "bulk_at args 1 = Ret a" using bulk_at_proper [OF assms(1), of 1] assms(2) by auto
  moreover obtain b where "bulk_at args 2 = Ret b" using bulk_at_proper [OF assms(1), of 2] assms(2) by auto
  moreover obtain c where "bulk_at args 3 = Ret c" using bulk_at_proper [OF assms(1), of 3] assms(2) by auto
  moreover obtain d where "bulk_at args 4 = Ret d" using bulk_at_proper [OF assms(1), of 4] assms(2) by auto
  ultimately show ?thesis using SetStream_no_panic [OF assms(3), of "now e" a b c "VString d"]
    by (auto simp: HandleXAdd_def with_ret_def Let_def split: prod.splits go.splits)
qed

lemma plain_handlers_no_crash:
  "fst (HandlePing h) \<noteq> Crash" "fst (HandleWait h) \<noteq> Crash" "fst (HandleInfo h) \<noteq> Crash" "fst (HandleKeys e h) \<noteq> Crash"
  "fst (HandleMulti ctx h) \<noteq> Crash" "fst (HandleDiscard ctx h) \<noteq> Crash" "fst (HandlePSync h) \<noteq> Crash"
  "fst (HandleEcho args h) \<noteq> Crash"
  by (simp_all add: HandlePing_def HandleWait_def HandleInfo_def HandleKeys_def HandleMulti_def HandleDiscard_def
      HandlePSync_def HandleEcho_def SerializeB64RdbToString_ReadRdb Let_def)

lemma key_handlers_no_crash:
  assumes "bulk_at args 1 = Ret key"
  shows "fst (HandleGet e args h) \<noteq> Crash" "fst (HandleIncr e args h) \<noteq> Crash" "fst (HandleType e args h) \<noteq> Crash"
    "fst (HandleReplconf args h) \<noteq> Crash" "bulk_at args 2 = Ret b \<Longrightarrow> fst (HandleConfig e args h) \<noteq> Crash"
  using assms
  by (auto simp: HandleGet_def HandleIncr_def HandleType_def HandleReplconf_def HandleConfig_def with_ret_def Let_def
      split: prod.splits option.splits go_value.splits)

lemma dispatch_no_crash:
  assumes "host_ok h" "env_ok (sch 0)" "proper_request name args"
  shows "fst (dispatch ex sch \<lparr>ConnId = c, RespArr = args\<rparr> (to_lower name) h) \<noteq> Crash"
proof -
  let ?n = "to_lower name" and ?e = "sch 0"
  have bulk: "\<forall>a \<in> set args. \<exists>s. a = RespBulkString s" using assms(3) by (simp add: proper_request_def)
  have typed: "typed_store (Store h)" "store_ok (Store h)" using assms(1) by (simp_all add: host_ok_def)
  obtain k where k: "words_needed ?n = Some k" "k \<le> length args" "?n = ''set'' \<longrightarrow> length args = 4 \<longrightarrow> bulk_at args 3 \<noteq> Ret ''px''"
    using assms(3) by (auto simp: proper_request_def split: option.splits)
  have key: "\<exists>s. bulk_at args 1 = Ret s" if "2 \<le> length args" using bulk_at_proper [OF bulk, of 1] that by auto
  have key2: "\<exists>s. bulk_at args 2 = Ret s" if "3 \<le> length args" using bulk_at_proper [OF bulk, of 2] that by auto
  consider (one) "?n \<in> {''ping'', ''wait'', ''info'', ''keys'', ''multi'', ''discard'', ''psync'', ''echo''}"
    | (two) "?n \<in> {''get'', ''incr'', ''type'', ''replconf''}" "2 \<le> length args"
    | (xread) "?n = ''xread''" "2 \<le> length args" | (config) "?n = ''config''" "3 \<le> length args"
    | (set) "?n = ''set''" "3 \<le> length args" | (xadd) "?n = ''xadd''" "5 \<le> length args"
    using k by (auto simp: words_needed_def split: if_splits)
  then show ?thesis
  proof cases
    case one
    then show ?thesis using plain_handlers_no_crash by (auto simp: dispatch_def Let_def)
  next
    case two
    from key [OF two(2)] two(1) show ?thesis using key_handlers_no_crash(1-4) by (auto simp: dispatch_def Let_def)
  next
    case xread
    with HandleXRead_no_crash [OF bulk xread(2) typed(1) assms(2)] show ?thesis by (simp add: dispatch_def Let_def)
  next
    case config
    have "2 \<le> length args" using config(2) by simp
    with key key2 config(2) obtain a b where "bulk_at args 1 = Ret a" "bulk_at args 2 = Ret b" by blast
    with config(1) key_handlers_no_crash(5) show ?thesis by (simp add: dispatch_def Let_def)
  next
    case set
    with HandleSet_no_crash [OF bulk set(2)] k(3) show ?thesis by (simp add: dispatch_def Let_def)
  next
    case xadd
    with HandleXAdd_no_crash [OF bulk xadd(2) typed(2)] show ?thesis by (simp add: dispatch_def Let_def)
  qed
qed

lemma run_command_no_crash:
  "host_ok h \<Longrightarrow> env_ok (sch 0) \<Longrightarrow> proper_request name args \<Longrightarrow>
   fst (run_command ex sch \<lparr>ConnId = c, RespArr = args\<rparr> name h) \<noteq> Crash"
  using dispatch_no_crash [of h sch name args ex c] by (simp add: run_command_def Let_def)

lemma exec_loop_no_crash:
  assumes "\<forall>n. env_ok (sch n)"
  shows "list_all (\<lambda>x. proper_request (qcommand x) (qarr x)) q \<Longrightarrow> host_ok h \<Longrightarrow>
    fst (exec_loop (handle_depth 0) sch i q result h) \<noteq> Crash"
proof (induction q arbitrary: i result h)
  case (Cons x q)
  let ?r = "handle_depth 0 (\<lambda>j. sch (i + j)) \<lparr>ConnId = 0, RespArr = qarr x\<rparr> (qcommand x) h"
  have "fst ?r \<noteq> Crash"
    using run_command_no_crash [of h "\<lambda>j. sch (i + j)" "qcommand x" "qarr x"] Cons.prems assms
    by (simp add: handle_depth.simps)
  moreover have "host_ok (snd ?r)" using Cons.prems(2) by (rule handle_depth_ok)
  ultimately show ?case using Cons by (cases ?r) (auto split: outcome.splits)
qed simp

lemma exec_no_crash:
  assumes "host_ok h" "\<forall>n. env_ok (sch n)" "proper_exec h c name"
  shows "fst (HandleCommand sch \<lparr>ConnId = c, RespArr = args\<rparr> name h) \<noteq> Crash"
proof -
  let ?ctx = "\<lparr>ConnId = c, RespArr = args\<rparr>"
  have "HandleCommand sch ?ctx name h = HandleExec (handle_depth 0) sch ?ctx h"
    using assms(3) by (simp add: HandleCommand_def handle_depth.simps run_command_def proper_exec_def dispatch_def Let_def)
  moreover have "fst (HandleExec (handle_depth 0) sch ?ctx h) \<noteq> Crash"
    using exec_loop_no_crash [OF assms(2)] host_ok_Consume [OF assms(1), of c] assms(3)
    by (auto simp: HandleExec_def IsInTransaction_def ConsumeTransactionQueue_def proper_exec_def split: option.splits)
  ultimately show ?thesis by simp
qed

text \<open>C11. Two kinds of requests do not crash the server in a well-formed state. One is a request
  of bulk strings that has the words its command needs: 1 for PING, WAIT, INFO, KEYS, MULTI,
  DISCARD, PSYNC and ECHO, 2 for GET, INCR, TYPE, REPLCONF and XREAD, 3 for CONFIG and SET (but a
  SET of 4 words does not end in px), 5 for XADD. The other is EXEC, without a transaction or
  with a queue of such requests. The stored values have the types the handlers assert, and
  every index is in range. XRANGE is left out, as its search can leave its bounds, and a map
  is taken to be iterated over its own keys.\<close>

theorem proper_requests_do_not_crash:
  assumes "host_ok h" "\<forall>n. env_ok (sch n)" "proper_request name args \<or> proper_exec h c name"
  shows "fst (HandleCommand sch \<lparr>ConnId = c, RespArr = args\<rparr> name h) \<noteq> Crash"
  using assms(3)
proof
  assume "proper_request name args"
  then show ?thesis using run_command_no_crash [OF assms(1)] assms(2) by (simp add: HandleCommand_def handle_depth.simps)
next
  assume "proper_exec h c name"
  then show ?thesis by (rule exec_no_crash [OF assms(1,2)])
qed

theorem proper_requests_do_not_crash_witness:
  "fst (HandleCommand still_env \<lparr>ConnId = 7, RespArr = [RespBulkString ''EXEC'']\<rparr> ''EXEC''
      (with_queue 7 [\<lparr>qcommand = ''incr'', qarr = [RespBulkString ''INCR'', RespBulkString ''k'']\<rparr>] fresh_host)) \<noteq> Crash"
proof (rule proper_requests_do_not_crash)
  have l: "to_lower ''incr'' = ''incr''" "to_lower ''EXEC'' = ''exec''" by code_simp+
  then show "host_ok (with_queue 7 [\<lparr>qcommand = ''incr'', qarr = [RespBulkString ''INCR'', RespBulkString ''k'']\<rparr>] fresh_host)"
    using fresh_host_ok by (auto simp: host_ok_def queues_ok_def with_queue_def queueable_def)
  show "\<forall>n. env_ok (still_env n)" by (simp add: env_ok_def still_env_def)
  show "proper_request ''EXEC'' [RespBulkString ''EXEC'']
    \<or> proper_exec (with_queue 7 [\<lparr>qcommand = ''incr'', qarr = [RespBulkString ''INCR'', RespBulkString ''k'']\<rparr>] fresh_host) 7 ''EXEC''"
    using l by (simp add: proper_exec_def proper_request_def words_needed_def)
qed

end
