(* ===== verification/Http_Strings.thy ===== *)
theory Http_Strings
  imports Bufio Strconv
begin

text \<open>
  The functions of the standard packages \<open>strings\<close> and \<open>path\<close> that the HTTP server
  (http-server-go/app) calls, on byte strings.
\<close>

section \<open>Prefixes and suffixes\<close>

definition has_prefix :: "string \<Rightarrow> string \<Rightarrow> bool" where
  "has_prefix s p = (take (length p) s = p)"

definition has_suffix :: "string \<Rightarrow> string \<Rightarrow> bool" where
  "has_suffix s q = (length q \<le> length s \<and> drop (length s - length q) s = q)"

definition trim_prefix :: "string \<Rightarrow> string \<Rightarrow> string" where
  "trim_prefix s p = (if has_prefix s p then drop (length p) s else s)"

definition trim_suffix :: "string \<Rightarrow> string \<Rightarrow> string" where
  "trim_suffix s q = (if has_suffix s q then take (length s - length q) s else s)"

text \<open>\<open>strings.Trim\<close> with a set of ASCII bytes.\<close>

definition trim_set :: "char set \<Rightarrow> string \<Rightarrow> string" where
  "trim_set cs s = rev (dropWhile (\<lambda>c. c \<in> cs) (rev (dropWhile (\<lambda>c. c \<in> cs) s)))"

lemma trim_suffix_append [simp]: "trim_suffix (s @ q) q = s"
  by (simp add: trim_suffix_def has_suffix_def)

lemma trim_suffix_byte: "trim_suffix s [d] = (if s \<noteq> [] \<and> last s = d then butlast s else s)"
  by (cases s rule: rev_cases) (auto simp: trim_suffix_def has_suffix_def)

lemma trim_suffix_free: "d \<notin> set s \<Longrightarrow> trim_suffix s [d] = s"
  using last_in_set [of s] by (auto simp: trim_suffix_byte)

lemma trim_set_id:
  assumes "s = [] \<or> hd s \<notin> cs \<and> last s \<notin> cs"
  shows "trim_set cs s = s"
proof -
  have "dropWhile (\<lambda>c. c \<in> cs) s = s" "dropWhile (\<lambda>c. c \<in> cs) (rev s) = rev s"
    using assms by (auto simp: dropWhile_eq_self_iff hd_rev)
  then show ?thesis by (simp add: trim_set_def)
qed

text \<open>Blanks around a word are trimmed off.\<close>

lemma trim_set_pad:
  assumes "set u \<subseteq> cs" "set v \<subseteq> cs" "s = [] \<or> hd s \<notin> cs \<and> last s \<notin> cs"
  shows "trim_set cs (u @ s @ v) = s"
proof (cases s)
  case Nil
  have "\<forall>c \<in> set (u @ v). c \<in> cs" using assms(1,2) by auto
  then have "dropWhile (\<lambda>c. c \<in> cs) (u @ v) = []" by (simp only: dropWhile_eq_Nil_conv)
  then show ?thesis using Nil unfolding trim_set_def by (simp del: dropWhile_eq_Nil_conv)
next
  case (Cons a t)
  then have "a \<notin> cs" "last s \<notin> cs" using assms(3) by auto
  have "dropWhile (\<lambda>c. c \<in> cs) (u @ s @ v) = s @ v"
    using assms(1) \<open>a \<notin> cs\<close> Cons by (subst dropWhile_append2) auto
  moreover have "dropWhile (\<lambda>c. c \<in> cs) (rev v @ rev s) = rev s"
    using assms(2) \<open>last s \<notin> cs\<close>
    by (subst dropWhile_append2) (auto simp: dropWhile_eq_self_iff hd_rev)
  ultimately show ?thesis by (simp add: trim_set_def)
qed

text \<open>\<open>strings.NewReader\<close> under a buffered reader: the whole string, then the end.\<close>

lemma string_reader_pending [simp]: "pending (string_reader s) = s" "faults (string_reader s) = []"
  by (simp_all add: string_reader_def) (simp add: new_reader_def pending_def)

section \<open>Splitting at a separator of two bytes\<close>

text \<open>\<open>strings.Split (s, ab)\<close> for a separator of two different bytes: never an empty list.\<close>

fun split_pair :: "char \<Rightarrow> char \<Rightarrow> string \<Rightarrow> string list" where
  "split_pair a b [] = [[]]"
| "split_pair a b [c] = [[c]]"
| "split_pair a b (c # d # cs) =
     (if c = a \<and> d = b then [] # split_pair a b cs
      else (case split_pair a b (d # cs) of [] \<Rightarrow> [[c]] | p # ps \<Rightarrow> (c # p) # ps))"

lemma split_pair_not_Nil [simp]: "split_pair a b s \<noteq> []"
  by (cases "(a, b, s)" rule: split_pair.cases) (auto split: list.splits)

lemma split_pair_free: "a \<notin> set s \<Longrightarrow> split_pair a b s = [s]"
  by (induction a b s rule: split_pair.induct) auto

lemma split_pair_append:
  "a \<notin> set s \<Longrightarrow> split_pair a b (s @ a # b # t) = s # split_pair a b t"
proof (induction s)
  case (Cons c s)
  then show ?case by (cases s) auto
qed simp

section \<open>Package path\<close>

text \<open>
  \<open>path.Clean\<close>: the elements between slashes without the empty ones and the dots; a
  double dot takes back the element before it, or at the root vanishes.
\<close>

fun clean_elems :: "bool \<Rightarrow> string list \<Rightarrow> string list \<Rightarrow> string list" where
  "clean_elems rooted out [] = rev out"
| "clean_elems rooted out (e # es) =
     (if e = [] \<or> e = ''.'' then clean_elems rooted out es
      else if e = ''..'' then
        (if out \<noteq> [] \<and> hd out \<noteq> ''..'' then clean_elems rooted (tl out) es
         else if rooted then clean_elems rooted out es
         else clean_elems rooted (e # out) es)
      else clean_elems rooted (e # out) es)"

definition path_clean :: "string \<Rightarrow> string" where
  "path_clean p =
     (let rooted = (p \<noteq> [] \<and> hd p = CHR ''/'');
          out = join_with ''/'' (clean_elems rooted [] (split_on (CHR ''/'') p))
      in if rooted then CHR ''/'' # out else if out = [] then ''.'' else out)"

definition path_join :: "string \<Rightarrow> string \<Rightarrow> string" where
  "path_join dir name =
     (if dir = [] then (if name = [] then [] else path_clean name)
      else path_clean (dir @ ''/'' @ name))"

end
