(* ===== verification/Http_Message.thy ===== *)
theory Http_Message
  imports Http_Strings
begin

text \<open>
  Reading a request (http-server-go/app/lib/http/serialization.go: \<open>readRequestLine\<close>,
  \<open>readHeaderLines\<close>, \<open>readBody\<close>; types.go: \<open>HttpRequest\<close>). Each function takes the
  connection's buffered reader and returns the reader after it. The readers index the
  result of \<open>Peek (2)\<close> without looking at its length: past its end that is a panic.
\<close>

section \<open>Types\<close>

record request_line =
  LineMethod :: string
  RequestPath :: string
  LineVersion :: string

record http_request =
  HttpMethod :: string
  ReqVersion :: string
  Path :: string
  RouteVars :: "string \<rightharpoonup> string"
  Headers :: "string \<rightharpoonup> string"
  Body :: string

section \<open>The request line\<close>

text \<open>\<open>ReadString\<close> with the error handling of a caller that returns every error.\<close>

definition read_until :: "char \<Rightarrow> reader \<Rightarrow> string go \<times> reader" where
  "read_until d r =
     (case read_string d r of
        ((s, None), r1) \<Rightarrow> (Ret s, r1)
      | ((s, Some e), r1) \<Rightarrow> (Err e, r1))"

definition readRequestLine :: "reader \<Rightarrow> request_line go \<times> reader" where
  "readRequestLine r =
     (case read_until (CHR '' '') r of
        (Ret meth, r1) \<Rightarrow>
          (case read_until (CHR '' '') r1 of
             (Ret target, r2) \<Rightarrow>
               (case read_until LF r2 of
                  (Ret version, r3) \<Rightarrow>
                    (Ret \<lparr>LineMethod = to_lower (trim_suffix meth '' ''),
                          RequestPath = trim_suffix target '' '',
                          LineVersion = trim_suffix version CRLF\<rparr>, r3)
                | (Err e, r3) \<Rightarrow> (Err e, r3)
                | (Panic, r3) \<Rightarrow> (Panic, r3))
           | (Err e, r2) \<Rightarrow> (Err e, r2)
           | (Panic, r2) \<Rightarrow> (Panic, r2))
      | (Err e, r1) \<Rightarrow> (Err e, r1)
      | (Panic, r1) \<Rightarrow> (Panic, r1))"

section \<open>Headers\<close>

text \<open>The test \<open>c[0] == '\r' && c[1] == '\n'\<close>: the second byte is looked at only after a
  first one that matches.\<close>

definition is_crlf :: "string \<Rightarrow> bool go" where
  "is_crlf c =
     (case c of
        [] \<Rightarrow> Panic
      | a # rest \<Rightarrow>
          if a = CR then (case rest of [] \<Rightarrow> Panic | b # _ \<Rightarrow> Ret (b = LF)) else Ret False)"

definition header_name :: "string \<Rightarrow> string" where
  "header_name h = trim_suffix (to_lower h) '':''"

definition header_value :: "string \<Rightarrow> string" where
  "header_value v = trim_set {CHR '' '', CR, LF} (to_lower v)"

lemma read_until_takes:
  assumes "read_until d r = (Ret s, r1)"
  shows "pending r = s @ pending r1" "faults r1 = faults r" "s \<noteq> []" "length (pending r1) < length (pending r)"
proof -
  have eq: "read_string d r = ((s, None), r1)"
    using assms by (auto simp: read_until_def split: prod.splits option.splits)
  obtain s' e r' where *: "read_string d r = ((s', e), r')" "pending r = s' @ pending r'" "faults r' = (if e = None then faults r else tl (faults r))"
    "e = None \<longleftrightarrow> d \<in> set (pending r)" "e = None \<Longrightarrow> s' \<noteq> [] \<and> last s' = d"
    by (rule bufio.rstring_total [of d r]) metis
  with eq show "pending r = s @ pending r1" "faults r1 = faults r" "s \<noteq> []" by auto
  then show "length (pending r1) < length (pending r)" by (cases s) auto
qed

lemma peek_pending: "peek n r = (x, r1) \<Longrightarrow> n \<le> bufsize \<Longrightarrow> pending r1 = pending r"
  using bufio.rpeek_law [of n r] by auto

lemma header_shrinks:
  assumes "peek 2 r = ((c, err), r1)" "read_until (CHR '':'') r1 = (Ret h, r2)" "read_until LF r2 = (Ret v, r3)"
  shows "length (pending r3) < length (pending r)"
  using peek_pending [OF assms(1)] read_until_takes(4) [OF assms(2)] read_until_takes(4) [OF assms(3)] by simp

function readHeaderLines :: "(string \<rightharpoonup> string) \<Rightarrow> reader \<Rightarrow> (string \<rightharpoonup> string) go \<times> reader" where
  "readHeaderLines result r =
     (case peek 2 r of ((c, err), r1) \<Rightarrow>
        (case is_crlf c of
           Panic \<Rightarrow> (Panic, r1)
         | Err e \<Rightarrow> (Err e, r1)
         | Ret True \<Rightarrow> (Ret result, r1)
         | Ret False \<Rightarrow>
             (case err of
                Some e \<Rightarrow> (Err e, r1)
              | None \<Rightarrow>
                  (case read_until (CHR '':'') r1 of
                     (Ret header, r2) \<Rightarrow>
                       (case read_until LF r2 of
                          (Ret value, r3) \<Rightarrow>
                            readHeaderLines (result(header_name header \<mapsto> header_value value)) r3
                        | (Err e, r3) \<Rightarrow> (Err e, r3)
                        | (Panic, r3) \<Rightarrow> (Panic, r3))
                   | (Err e, r2) \<Rightarrow>
                       (Err (if e = EOF then Wrapped ''didn't expect to hit EOF reading header '' e else e), r2)
                   | (Panic, r2) \<Rightarrow> (Panic, r2)))))"
  by pat_completeness auto
termination
  by (relation "measure (\<lambda>(m, r). length (pending r))") (auto dest: header_shrinks [OF sym sym sym])

declare readHeaderLines.simps [simp del]

section \<open>The body\<close>

definition readBody :: "int \<Rightarrow> reader \<Rightarrow> string go \<times> reader" where
  "readBody len r =
     (case peek 2 r of ((c, _), r1) \<Rightarrow>
        (case is_crlf c of
           Panic \<Rightarrow> (Panic, r1)
         | Err e \<Rightarrow> (Err e, r1)
         | Ret crlf \<Rightarrow>
             (let r2 = (if crlf then snd (discard 2 r1) else r1) in
              if \<not> make_ok 1 len then (Panic, r2)
              else (case read_some (nat len) r2 of
                      (Err e, r3) \<Rightarrow> (Err e, r3)
                    | (Panic, r3) \<Rightarrow> (Panic, r3)
                    | (Ret buf, r3) \<Rightarrow>
                        if int (length buf) \<noteq> len
                        then (Err (ErrorString ''content didn't equal expected length''), r3)
                        else (Ret buf, r3)))))"

section \<open>A request on the wire\<close>

definition line_wire :: "string \<Rightarrow> string \<Rightarrow> string \<Rightarrow> string" where
  "line_wire meth target version = meth @ '' '' @ target @ '' '' @ version @ CRLF"

definition header_wire :: "string \<times> string \<Rightarrow> string" where
  "header_wire h = fst h @ '': '' @ snd h @ CRLF"

definition headers_wire :: "(string \<times> string) list \<Rightarrow> string" where
  "headers_wire hs = concat (map header_wire hs) @ CRLF"

definition line_ok :: "string \<Rightarrow> string \<Rightarrow> string \<Rightarrow> bool" where
  "line_ok meth target version \<longleftrightarrow>
     is_ascii meth \<and> CHR '' '' \<notin> set meth \<and> CHR '' '' \<notin> set target \<and> LF \<notin> set version"

definition header_ok :: "string \<times> string \<Rightarrow> bool" where
  "header_ok h \<longleftrightarrow> is_ascii (fst h) \<and> is_ascii (snd h) \<and> fst h \<noteq> [] \<and> hd (fst h) \<noteq> CR \<and> CHR '':'' \<notin> set (fst h) \<and> LF \<notin> set (snd h)
     \<and> (snd h = [] \<or> hd (snd h) \<notin> {CHR '' '', CR, LF} \<and> last (snd h) \<notin> {CHR '' '', CR, LF})"

definition header_map :: "(string \<times> string) list \<Rightarrow> string \<rightharpoonup> string" where
  "header_map hs = map_of (rev (map (\<lambda>h. (to_lower (fst h), to_lower (snd h))) hs))"

text \<open>Lower-casing keeps the bytes the readers look for.\<close>

lemma lower_char_keeps [simp]:
  assumes "d \<in> {CHR '' '', CHR '':'', CR, LF}"
  shows "lower_char c = d \<longleftrightarrow> c = d"
proof -
  have "(of_char (char_of (n + 32) :: char) :: nat) = n + 32" if "n \<le> 90" for n :: nat
    using that by (simp add: of_char_of)
  then show ?thesis using assms
    by (auto simp: lower_char_def Let_def dest!: arg_cong [of _ _ "of_char :: char \<Rightarrow> nat"])
qed

lemma to_lower_append [simp]: "to_lower (s @ t) = to_lower s @ to_lower t"
  by (simp add: to_lower_def)

lemma header_name_wire: "CHR '':'' \<notin> set k \<Longrightarrow> header_name (k @ '':'') = to_lower k"
proof -
  have "to_lower '':'' = '':''" by code_simp
  then show ?thesis by (simp add: header_name_def)
qed

lemma header_value_wire:
  assumes "v = [] \<or> hd v \<notin> {CHR '' '', CR, LF} \<and> last v \<notin> {CHR '' '', CR, LF}"
  shows "header_value ('' '' @ v @ CRLF) = to_lower v"
proof -
  have l: "to_lower '' '' = '' ''" "to_lower CRLF = CRLF" by code_simp+
  have "to_lower v = [] \<or> hd (to_lower v) \<notin> {CHR '' '', CR, LF} \<and> last (to_lower v) \<notin> {CHR '' '', CR, LF}"
    using assms by (cases "v = []") (auto simp: to_lower_def hd_map last_map)
  with l show ?thesis unfolding header_value_def by (simp only: to_lower_append) (rule trim_set_pad, auto)
qed

section \<open>Reading it back\<close>

text \<open>
  Two views of a reader's input make the same reading possible: all bytes still to come,
  however they arrive, and the bytes that are in the buffer already, where the reader
  afterwards is known exactly. The laws both have are the interface \<open>input_view\<close>.
\<close>

locale input_view =
  fixes holds :: "reader \<Rightarrow> string \<Rightarrow> bool"
  assumes holds_until: "d \<notin> set s \<Longrightarrow> holds r (s @ d # t) \<Longrightarrow>
      \<exists>r'. read_string d r = ((s @ [d], None), r') \<and> holds r' t"
    and holds_peek: "2 \<le> length s \<Longrightarrow> holds r s \<Longrightarrow> \<exists>r'. peek 2 r = ((take 2 s, None), r') \<and> holds r' s"
begin

lemma until_found:
  assumes "holds r (s @ d # t)" "d \<notin> set s"
  obtains r' where "read_until d r = (Ret (s @ [d]), r')" "holds r' t"
  using holds_until [OF assms(2,1)] by (auto simp: read_until_def)

lemma request_line_read:
  assumes "line_ok meth target version" "holds r (line_wire meth target version @ s)"
  obtains r' where "readRequestLine r = (Ret \<lparr>LineMethod = to_lower meth, RequestPath = target,
      LineVersion = version\<rparr>, r')" "holds r' s"
proof -
  have ok: "CHR '' '' \<notin> set meth" "CHR '' '' \<notin> set target" "LF \<notin> set (version @ [CR])"
    using assms(1) by (simp_all add: line_ok_def)
  have "holds r (meth @ CHR '' '' # target @ CHR '' '' # (version @ [CR]) @ LF # s)"
    using assms(2) by (simp add: line_wire_def)
  from until_found [OF this ok(1)] obtain r1 where r1: "read_until (CHR '' '') r = (Ret (meth @ '' ''), r1)"
    "holds r1 (target @ CHR '' '' # (version @ [CR]) @ LF # s)" .
  from until_found [OF r1(2) ok(2)] obtain r2 where r2: "read_until (CHR '' '') r1 = (Ret (target @ '' ''), r2)"
    "holds r2 ((version @ [CR]) @ LF # s)" .
  from until_found [OF r2(2) ok(3)] obtain r3 where r3: "read_until LF r2 = (Ret (version @ CRLF), r3)" "holds r3 s"
    by auto
  have l: "trim_suffix (version @ CRLF) CRLF = version" by (rule trim_suffix_append)
  show ?thesis by (rule that [of r3]) (simp_all add: readRequestLine_def r1 r2 r3 l)
qed

lemma one_header_read:
  assumes "header_ok (k, v)" "holds r (header_wire (k, v) @ s)"
  obtains r' where "readHeaderLines m r = readHeaderLines (m(to_lower k \<mapsto> to_lower v)) r'" "holds r' s"
proof -
  from assms(1) have ok: "k \<noteq> []" "hd k \<noteq> CR" "CHR '':'' \<notin> set k" "LF \<notin> set ('' '' @ v @ [CR])"
    "v = [] \<or> hd v \<notin> {CHR '' '', CR, LF} \<and> last v \<notin> {CHR '' '', CR, LF}"
    by (simp_all add: header_ok_def)
  define w where "w = k @ CHR '':'' # ('' '' @ v @ [CR]) @ LF # s"
  have "holds r w" using assms(2) by (simp add: header_wire_def w_def)
  moreover have "2 \<le> length w" using ok(1) by (cases k) (auto simp: w_def)
  ultimately obtain r1 where r1: "peek 2 r = ((take 2 w, None), r1)" "holds r1 w"
    using holds_peek by blast
  have c: "is_crlf (take 2 w) = Ret False"
    using ok(1,2) by (cases k) (auto simp: is_crlf_def take_Suc_Cons numeral_2_eq_2 w_def)
  from until_found [OF r1(2) [unfolded w_def] ok(3)] obtain r2 where r2: "read_until (CHR '':'') r1 = (Ret (k @ '':''), r2)"
    "holds r2 (('' '' @ v @ [CR]) @ LF # s)" .
  from until_found [OF r2(2) ok(4)] obtain r3 where r3: "read_until LF r2 = (Ret ('' '' @ v @ CRLF), r3)" "holds r3 s"
    by auto
  have "readHeaderLines m r = readHeaderLines (m(to_lower k \<mapsto> to_lower v)) r3"
    using header_value_wire [OF ok(5)]
    by (simp add: readHeaderLines.simps [of m r] r1(1) c r2(1) r3(1) header_name_wire ok(3))
  with r3(2) show ?thesis by (rule that [rotated])
qed

lemma headers_read:
  "\<forall>h \<in> set hs. header_ok h \<Longrightarrow> holds r (headers_wire hs @ s) \<Longrightarrow>
   \<exists>r'. readHeaderLines m r = (Ret (m ++ header_map hs), r') \<and> holds r' (CRLF @ s)"
proof (induction hs arbitrary: m r)
  case Nil
  then obtain r1 where "peek 2 r = ((CRLF, None), r1)" "holds r1 (CRLF @ s)"
    using holds_peek [of "CRLF @ s" r] by (auto simp: headers_wire_def)
  then show ?case by (simp add: readHeaderLines.simps [of m r] is_crlf_def header_map_def)
next
  case (Cons h hs)
  obtain k v where h: "h = (k, v)" by (cases h)
  with Cons.prems have "header_ok (k, v)" "holds r (header_wire (k, v) @ headers_wire hs @ s)"
    by (simp_all add: headers_wire_def)
  then obtain r1 where r1: "readHeaderLines m r = readHeaderLines (m(to_lower k \<mapsto> to_lower v)) r1"
    "holds r1 (headers_wire hs @ s)" by (rule one_header_read)
  have "\<forall>h \<in> set hs. header_ok h" using Cons.prems(1) by simp
  from Cons.IH [OF this r1(2), of "m(to_lower k \<mapsto> to_lower v)"] obtain r2 where
    "readHeaderLines m r = (Ret (m(to_lower k \<mapsto> to_lower v) ++ header_map hs), r2)" "holds r2 (CRLF @ s)"
    unfolding r1(1) by blast
  moreover have "header_map (h # hs) = [to_lower k \<mapsto> to_lower v] ++ header_map hs"
    by (simp add: header_map_def h)
  then have "m(to_lower k \<mapsto> to_lower v) ++ header_map hs = m ++ header_map (h # hs)"
    by simp
  ultimately show ?case by metis
qed

end

interpretation any_pieces: input_view "\<lambda>r s. pending r = s"
proof (unfold_locales, goal_cases)
  case (1 d s r t)
  then show ?case using bufio.rstring_found by blast
next
  case (2 s r)
  then show ?case using bufio.rpeek_law [of 2 r] by auto
qed

interpretation in_buffer: input_view "\<lambda>r s. r = r0\<lparr>rbuf := s\<rparr>" for r0
proof (unfold_locales, goal_cases)
  case (1 d s r t)
  then show ?case by (simp add: read_string_def read_string_acc.simps [of d "[]"])
next
  case (2 s r)
  then show ?case by (simp add: peek_def peek_fill.simps [of 2])
qed

text \<open>A request that is in the buffer with its headers leaves the CRLF and the rest there.\<close>

lemma head_in_buffer:
  assumes "line_ok meth target version" "\<forall>h \<in> set hs. header_ok h"
  shows "\<exists>r1. readRequestLine (r0\<lparr>rbuf := line_wire meth target version @ headers_wire hs @ s\<rparr>)
      = (Ret \<lparr>LineMethod = to_lower meth, RequestPath = target, LineVersion = version\<rparr>, r1)
    \<and> readHeaderLines Map.empty r1 = (Ret (header_map hs), r0\<lparr>rbuf := CRLF @ s\<rparr>)"
proof -
  obtain r1 where r1: "readRequestLine (r0\<lparr>rbuf := line_wire meth target version @ headers_wire hs @ s\<rparr>)
      = (Ret \<lparr>LineMethod = to_lower meth, RequestPath = target, LineVersion = version\<rparr>, r1)"
    "r1 = r0\<lparr>rbuf := headers_wire hs @ s\<rparr>"
    using in_buffer.request_line_read [OF assms(1) refl] .
  from in_buffer.headers_read [OF assms(2) r1(2), of Map.empty] r1(1) show ?thesis by auto
qed

lemma head_any_pieces:
  assumes "line_ok meth target version" "\<forall>h \<in> set hs. header_ok h"
    and "pending r = line_wire meth target version @ headers_wire hs @ s"
  shows "\<exists>r1 r2. readRequestLine r
      = (Ret \<lparr>LineMethod = to_lower meth, RequestPath = target, LineVersion = version\<rparr>, r1)
    \<and> readHeaderLines Map.empty r1 = (Ret (header_map hs), r2)"
proof -
  obtain r1 where r1: "readRequestLine r
      = (Ret \<lparr>LineMethod = to_lower meth, RequestPath = target, LineVersion = version\<rparr>, r1)"
    "pending r1 = headers_wire hs @ s"
    using any_pieces.request_line_read [OF assms(1,3)] .
  from any_pieces.headers_read [OF assms(2) r1(2), of Map.empty] r1(1) show ?thesis by auto
qed

text \<open>A first piece that fits the buffer is in it after the first read.\<close>

lemma readRequestLine_first_piece:
  assumes "s \<noteq> []" "length s \<le> bufsize"
  shows "readRequestLine (new_reader (s # cs) e) = readRequestLine ((new_reader cs e)\<lparr>rbuf := s\<rparr>)"
proof -
  have "fill (new_reader (s # cs) e) = (new_reader cs e)\<lparr>rbuf := s\<rparr>"
    using assms by (simp add: fill_def new_reader_def)
  then have "read_string d (new_reader (s # cs) e) = read_string d ((new_reader cs e)\<lparr>rbuf := s\<rparr>)" for d
    using assms(1) by (subst read_string_def, subst read_string_acc.simps)
      (simp add: read_string_def new_reader_def)
  then have "read_until d (new_reader (s # cs) e) = read_until d ((new_reader cs e)\<lparr>rbuf := s\<rparr>)" for d
    by (simp add: read_until_def)
  then show ?thesis by (simp add: readRequestLine_def)
qed

text \<open>Of the body, what is in the buffer behind the CRLF that ends the headers is read.\<close>

lemma readBody_in_buffer:
  assumes "b \<noteq> []" "make_ok 1 n" "0 < n"
  shows "readBody n (r\<lparr>rbuf := CRLF @ b\<rparr>) =
    (if int (length (take (nat n) b)) \<noteq> n then Err (ErrorString ''content didn't equal expected length'')
     else Ret (take (nat n) b), r\<lparr>rbuf := drop (nat n) b\<rparr>)"
proof -
  have "peek 2 (r\<lparr>rbuf := CRLF @ b\<rparr>) = ((CRLF, None), r\<lparr>rbuf := CRLF @ b\<rparr>)"
    by (simp add: peek_def peek_fill.simps [of 2])
  moreover have "discard 2 (r\<lparr>rbuf := CRLF @ b\<rparr>) = ((2, None), r\<lparr>rbuf := b\<rparr>)"
    by (simp add: discard.simps [of 2] discard.simps [of 0] Let_def)
  ultimately show ?thesis using assms
    by (simp add: readBody_def is_crlf_def read_some_def Let_def)
qed

end
