(* ===== verification/Http_Response.thy ===== *)
theory Http_Response
  imports Http_Message
begin

text \<open>
  Sending a response (http-server-go/app/lib/http/serialization.go: \<open>Send\<close>, \<open>SendPlain\<close>,
  \<open>SendFileStream\<close>, \<open>serializeResponse\<close>; types.go: \<open>HttpResponse\<close>). A connection is what
  has been written to it and whether it is open; the code looks at no result of a write.
  What package compress/gzip makes of a text, and what it reads back, is a pair of functions
  given from outside: DEFLATE leaves its output to the implementation.
\<close>

section \<open>Types\<close>

text \<open>\<open>os.Exit\<close> or a fatal log entry end the process like a panic, but in order.\<close>

datatype 'a process = Goes 'a | Exits | Panics

fun proc_bind :: "'a process \<Rightarrow> ('a \<Rightarrow> 'b process) \<Rightarrow> 'b process" where
  "proc_bind (Goes a) f = f a"
| "proc_bind Exits f = Exits"
| "proc_bind Panics f = Panics"

lemma proc_bind_eq_Goes [simp]: "proc_bind m f = Goes b \<longleftrightarrow> (\<exists>a. m = Goes a \<and> f a = Goes b)"
  by (cases m) auto

record http_response =
  Status :: string
  ResBody :: "reader option"
  ContentType :: string
  ContentLength :: int
  ResVersion :: string
  Request :: http_request
  Encoding :: string

record http_conn =
  sent :: string
  is_open :: bool

record gzip_codec =
  compress :: "string \<Rightarrow> string"
  decompress :: "string \<Rightarrow> string option"

section \<open>Constants\<close>

definition Status200OK :: string where "Status200OK = ''200 OK''"
definition Status201Created :: string where "Status201Created = ''201 Created''"
definition Status404NotFound :: string where "Status404NotFound = ''404 Not Found''"
definition Status500InternalServerError :: string where
  "Status500InternalServerError = ''500 Internal Server Error''"

definition HeaderContentType :: string where "HeaderContentType = ''Content-Type''"
definition HeaderContentLength :: string where "HeaderContentLength = ''Content-Length''"
definition HeaderContentEncoding :: string where "HeaderContentEncoding = ''Content-Encoding''"

definition TextPlainContentType :: string where "TextPlainContentType = ''text/plain''"
definition OctetStreamContentType :: string where "OctetStreamContentType = ''application/octet-stream''"

definition Http1Dot1Version :: string where "Http1Dot1Version = ''HTTP/1.1''"

section \<open>Serialisation\<close>

definition writeHeader :: "string \<Rightarrow> string \<Rightarrow> string" where
  "writeHeader key val = key @ '': '' @ val @ CRLF"

definition validencodings :: "string \<rightharpoonup> bool" where
  "validencodings = [''gzip'' \<mapsto> True]"

definition choose_encoding :: "string \<Rightarrow> string" where
  "choose_encoding accepted =
     (if accepted \<noteq> [] then
        (case find (\<lambda>e. validencodings e \<noteq> None) (split_pair (CHR '','') (CHR '' '') accepted) of
           Some e \<Rightarrow> e
         | None \<Rightarrow> [])
      else [])"

text \<open>\<open>io.Copy\<close> into the gzip writer, from a reader that may be nil.\<close>

definition gzipReaderToString :: "gzip_codec \<Rightarrow> reader option \<Rightarrow> string process" where
  "gzipReaderToString gz body =
     (case body of
        None \<Rightarrow> Panics
      | Some r \<Rightarrow> if rerr r = EOF then Goes (compress gz (pending r)) else Exits)"

text \<open>The two errors of reading it back, of the header and of the rest, are one here: the
  caller exits on both.\<close>

definition decompressGzip :: "gzip_codec \<Rightarrow> string \<Rightarrow> string go" where
  "decompressGzip gz data =
     (case decompress gz data of None \<Rightarrow> Err (ErrorString ''gzip'') | Some out \<Rightarrow> Ret out)"

definition encode_body :: "gzip_codec \<Rightarrow> http_response \<Rightarrow> http_response process" where
  "encode_body gz res =
     (if choose_encoding (Encoding res) = ''gzip'' then
        proc_bind (gzipReaderToString gz (ResBody res)) (\<lambda>body.
          (case decompressGzip gz body of
             Ret unzipped \<Rightarrow>
               Goes (res\<lparr>ContentLength := int (length body), ResBody := Some (string_reader body)\<rparr>)
           | _ \<Rightarrow> Exits))
      else Goes res)"

definition response_head :: "http_response \<Rightarrow> string" where
  "response_head res =
     ResVersion res @ '' '' @ Status res @ CRLF
     @ (if ContentType res \<noteq> [] then writeHeader HeaderContentType (ContentType res) else [])
     @ (if choose_encoding (Encoding res) \<noteq> []
        then writeHeader HeaderContentEncoding (choose_encoding (Encoding res)) else [])
     @ (if ContentLength res > 0 then writeHeader HeaderContentLength (itoa (ContentLength res)) else [])
     @ CRLF"

lemma src_read_shrinks:
  "src_read n cs = (b, cs') \<Longrightarrow> b \<noteq> [] \<Longrightarrow> 0 < n \<Longrightarrow> length (concat cs') < length (concat cs)"
  using src_read_concat [of n cs b cs'] by (cases b) (auto dest: arg_cong [of _ _ length])

lemma read_some_shrinks:
  assumes "read_some n r = (Ret b, r')" "0 < n"
  shows "length (pending r') < length (pending r)"
proof -
  have "b \<noteq> []" using assms
    by (auto simp: read_some_def Let_def split: if_splits prod.splits)
  then show ?thesis using read_some_pending(1) [OF assms(1)] by simp
qed

text \<open>The loop that copies the body in pieces of at most 4096 bytes, until an error.\<close>

function write_body :: "string \<Rightarrow> reader \<Rightarrow> string" where
  "write_body out r =
     (case read_some 4096 r of
        (Ret b, r') \<Rightarrow> write_body (out @ b) r'
      | (Err e, r') \<Rightarrow> out
      | (Panic, r') \<Rightarrow> out)"
  by pat_completeness auto
termination
  by (relation "measure (\<lambda>(out, r). length (pending r))") (auto dest: read_some_shrinks [OF sym])

declare write_body.simps [simp del]

definition serializeResponse :: "gzip_codec \<Rightarrow> http_response \<Rightarrow> http_conn \<Rightarrow> http_conn process" where
  "serializeResponse gz res conn =
     proc_bind (encode_body gz res) (\<lambda>res1.
       let conn1 = conn\<lparr>sent := sent conn @ response_head res1\<rparr> in
       Goes (case ResBody res1 of
           None \<Rightarrow> conn1
         | Some r \<Rightarrow> conn1\<lparr>sent := write_body (sent conn1) r\<rparr>))"

definition Send :: "gzip_codec \<Rightarrow> http_response \<Rightarrow> http_conn \<Rightarrow> http_conn process" where
  "Send gz res conn =
     proc_bind (serializeResponse gz res conn) (\<lambda>conn1. Goes (conn1\<lparr>is_open := False\<rparr>))"

definition SendPlain :: "gzip_codec \<Rightarrow> string \<Rightarrow> http_response \<Rightarrow> http_conn \<Rightarrow> http_conn process" where
  "SendPlain gz body res conn =
     Send gz (res\<lparr>ContentType := TextPlainContentType, ResBody := Some (string_reader body),
       ContentLength := int (length body)\<rparr>) conn"

text \<open>An open file: the result of \<open>Stat\<close> (its size) and a reader over its content. When
  \<open>Stat\<close> fails, \<open>SendFileStream\<close> returns its error before it has used the connection.\<close>

definition SendFileStream ::
  "gzip_codec \<Rightarrow> int go \<Rightarrow> reader \<Rightarrow> http_response \<Rightarrow> http_conn \<Rightarrow> http_conn process" where
  "SendFileStream gz stat content res conn =
     (case stat of
        Err e \<Rightarrow> Goes conn
      | Panic \<Rightarrow> Panics
      | Ret bytes \<Rightarrow>
          Send gz (res\<lparr>ContentType := OctetStreamContentType, ContentLength := bytes,
            ResBody := Some content\<rparr>) conn)"

section \<open>What goes out\<close>

lemma read_some_Err:
  assumes "read_some n r = (Err e, r')" "0 < n"
  shows "pending r = []"
proof (cases "rbuf r = []")
  case True
  show ?thesis
  proof (cases "bufsize \<le> n")
    case long: True
    obtain b cs where "src_read n (rsrc r) = (b, cs)" by fastforce
    with assms True long have "src_read n (rsrc r) = ([], cs)"
      by (simp add: read_some_def split: if_splits)
    from src_read_Nil [OF this assms(2)] True show ?thesis by (simp add: pending_def)
  next
    case False
    then have "rbuf (fill r) = []" using assms True by (simp add: read_some_def Let_def split: if_splits)
    then show ?thesis using fill_end(2) [of r] True by (simp add: pending_def)
  qed
qed (use assms in \<open>simp add: read_some_def\<close>)

lemma read_some_not_Panic: "read_some n r \<noteq> (Panic, r')"
  by (simp add: read_some_def Let_def split: prod.splits)

text \<open>The loop sends the whole content, in whatever pieces it arrives.\<close>

lemma write_body_all: "write_body out r = out @ pending r"
proof (induction out r rule: write_body.induct)
  case (1 out r)
  consider (more) b r' where "read_some 4096 r = (Ret b, r')"
    | (over) e r' where "read_some 4096 r = (Err e, r')" "pending r = []"
    using read_some_Err [of 4096 r] read_some_not_Panic [of 4096 r]
    by (cases "read_some 4096 r"; cases "fst (read_some 4096 r)") auto
  then show ?case
  proof cases
    case more
    then show ?thesis using 1 [OF more [symmetric]] read_some_pending(1) [OF more]
      by (simp add: write_body.simps [of out r])
  next
    case over
    then show ?thesis by (simp add: write_body.simps [of out r])
  qed
qed

lemma serializeResponse_plain:
  assumes "choose_encoding (Encoding res) = []"
  shows "serializeResponse gz res conn = Goes (conn\<lparr>sent := sent conn @ response_head res
    @ (case ResBody res of None \<Rightarrow> [] | Some r \<Rightarrow> pending r)\<rparr>)"
  using assms
  by (simp add: serializeResponse_def encode_body_def write_body_all Let_def split: option.splits)

lemma serializeResponse_gzip:
  assumes "choose_encoding (Encoding res) = ''gzip''" "ResBody res = Some r" "faults r = []"
    "decompress gz (compress gz (pending r)) \<noteq> None"
  shows "serializeResponse gz res conn = Goes (conn\<lparr>sent := sent conn
    @ response_head (res\<lparr>ContentLength := int (length (compress gz (pending r)))\<rparr>) @ compress gz (pending r)\<rparr>)"
proof -
  let ?z = "compress gz (pending r)"
  have "encode_body gz res = Goes (res\<lparr>ContentLength := int (length ?z), ResBody := Some (string_reader ?z)\<rparr>)"
    using assms by (auto simp: encode_body_def gzipReaderToString_def decompressGzip_def)
  moreover have "response_head (res\<lparr>ContentLength := int (length ?z), ResBody := Some (string_reader ?z)\<rparr>)
      = response_head (res\<lparr>ContentLength := int (length ?z)\<rparr>)"
    by (simp add: response_head_def)
  ultimately show ?thesis by (simp add: serializeResponse_def write_body_all Let_def)
qed

lemma serializeResponse_nil_gzip:
  "choose_encoding (Encoding res) = ''gzip'' \<Longrightarrow> ResBody res = None \<Longrightarrow> serializeResponse gz res conn = Panics"
  by (simp add: serializeResponse_def encode_body_def gzipReaderToString_def)

lemma choose_encoding_cases: "choose_encoding s = [] \<or> choose_encoding s = ''gzip''"
  by (auto simp: choose_encoding_def validencodings_def find_Some_iff split: option.splits if_splits)

lemma choose_encoding_iff: "choose_encoding s = ''gzip'' \<longleftrightarrow> ''gzip'' \<in> set (split_pair (CHR '','') (CHR '' '') s)"
proof -
  have "split_pair (CHR '','') (CHR '' '') [] = [[]]" by simp
  then show ?thesis
    by (auto simp: choose_encoding_def validencodings_def find_None_iff find_Some_iff in_set_conv_nth
        split: option.splits if_splits)
qed

end
