(* ===== verification/Http_Router.thy ===== *)
theory Http_Router
  imports Http_Strings
begin

text \<open>
  The router (http-server-go/app/lib/http/router.go): how a route pattern becomes a list of
  segments and how a request path is matched against it. Both loops read the path through
  a \<open>bufio.Reader\<close>, as the code does; \<open>comps\<close> is the reference they are shown equal to,
  the components of a path as a function of the string.
\<close>

section \<open>Segments\<close>

record path_segment =
  Part :: string
  IsVar :: bool

abbreviation slash :: char where "slash \<equiv> CHR ''/''"

text \<open>The part of one turn of the two loops that drops a leading slash.\<close>

definition skip_slash :: "string \<Rightarrow> reader \<Rightarrow> reader" where
  "skip_slash c r = (if hd c = slash then snd (discard 1 r) else r)"

definition segment_of :: "string \<Rightarrow> path_segment" where
  "segment_of part =
     (if has_prefix part ''{'' \<and> has_suffix part ''}''
      then \<lparr>Part = trim_suffix (trim_prefix part ''{'') ''}'', IsVar = True\<rparr>
      else \<lparr>Part = to_lower part, IsVar = False\<rparr>)"

lemma turn_shrinks:
  assumes "peek 1 r = ((c, e), r1)" "c \<noteq> []" "read_string slash (skip_slash c r1) = ((part, err), r2)"
  shows "length (pending r2) < length (pending r)"
proof -
  have c: "c = take 1 (pending r)" "pending r1 = pending r"
    using bufio.rpeek_law [of 1 r] assms(1) by auto
  then obtain b t where bt: "pending r = b # t" "c = [b]"
    using assms(2) by (cases "pending r") auto
  have skip: "pending (skip_slash c r1) = (if b = slash then t else b # t)"
    using bufio.rdiscard_law [of 1 r1] c bt by (auto simp: skip_slash_def)
  obtain s where s: "pending (skip_slash c r1) = s @ pending r2" "err = None \<Longrightarrow> s \<noteq> []"
    using bufio.rstring_total [of slash "skip_slash c r1"] assms(3) by (metis fst_conv prod.inject)
  have "pending r2 = []" if "err \<noteq> None"
  proof -
    have "slash \<notin> set (pending (skip_slash c r1))"
      using that bufio.rstring_total [of slash "skip_slash c r1"] assms(3) by (metis prod.inject)
    from bufio.rstring_end [OF this] assms(3) show ?thesis by auto
  qed
  moreover have "length s + length (pending r2) = length (pending (skip_slash c r1))" using s(1) by simp
  moreover have "0 < length s" if "err = None" using s(2) [OF that] by (rule length_greater_0_conv [THEN iffD2])
  ultimately show ?thesis using skip bt
    by (cases "err = None") (auto split: if_splits simp del: length_greater_0_conv)
qed

function get_segments_from :: "path_segment list \<Rightarrow> reader \<Rightarrow> path_segment list go" where
  "get_segments_from parts r =
     (case peek 1 r of ((c, e), r1) \<Rightarrow>
        if e = Some EOF then Ret parts
        else if c = [] then Panic
        else (case read_string slash (skip_slash c r1) of ((part, err), r2) \<Rightarrow>
          if err \<noteq> None \<and> err \<noteq> Some EOF then Err (the err)
          else get_segments_from (parts @ [segment_of (trim_suffix part ''/'')]) r2))"
  by pat_completeness auto
termination
  by (relation "measure (\<lambda>(parts, r). length (pending r))") (auto simp del: One_nat_def dest: turn_shrinks [OF sym _ sym])

declare get_segments_from.simps [simp del]

definition getPathSegments :: "string \<Rightarrow> path_segment list go" where
  "getPathSegments route = get_segments_from [] (string_reader route)"

fun match_from :: "path_segment list \<Rightarrow> (string \<rightharpoonup> string) \<Rightarrow> reader \<Rightarrow> bool \<times> (string \<rightharpoonup> string)" where
  "match_from [] vars r =
     (case peek 1 r of ((c, e), r1) \<Rightarrow> if e = Some EOF then (True, vars) else (False, Map.empty))"
| "match_from (expected # segments) vars r =
     (case peek 1 r of ((c, e), r1) \<Rightarrow>
        if e \<noteq> None then (False, Map.empty)
        else (case read_string slash (skip_slash c r1) of ((got0, err), r2) \<Rightarrow>
          if err \<noteq> None \<and> err \<noteq> Some EOF then (False, Map.empty)
          else (let got = trim_suffix got0 ''/'' in
            if IsVar expected then match_from segments (vars(Part expected \<mapsto> got)) r2
            else if got \<noteq> Part expected then (False, Map.empty)
            else match_from segments vars r2)))"

definition match_route :: "string \<Rightarrow> path_segment list \<Rightarrow> bool \<times> (string \<rightharpoonup> string)" where
  "match_route route segments = match_from segments Map.empty (string_reader (to_lower route))"

section \<open>One turn of the loops\<close>

text \<open>What a turn takes off a path that is not empty: an optional slash, then the bytes up to
  the next slash, then that slash.\<close>

definition after_slash :: "string \<Rightarrow> string" where
  "after_slash s = (if s \<noteq> [] \<and> hd s = slash then tl s else s)"

definition first_comp :: "string \<Rightarrow> string" where
  "first_comp s = takeWhile (\<lambda>c. c \<noteq> slash) (after_slash s)"

definition rest_comps :: "string \<Rightarrow> string" where
  "rest_comps s = tl (dropWhile (\<lambda>c. c \<noteq> slash) (after_slash s))"

lemma rest_comps_shorter: "s \<noteq> [] \<Longrightarrow> length (rest_comps s) < length s"
  using length_dropWhile_le [of "\<lambda>c. c \<noteq> slash" "after_slash s"]
  by (cases s) (auto simp: rest_comps_def after_slash_def le_imp_less_Suc
      intro: le_less_trans [OF diff_le_self] split: if_splits)

function comps :: "string \<Rightarrow> string list" where
  "comps s = (if s = [] then [] else first_comp s # comps (rest_comps s))"
  by pat_completeness auto
termination by (relation "measure length") (auto simp: rest_comps_shorter)

declare comps.simps [simp del]

lemma comps_Nil [simp]: "comps [] = []"
  by (simp add: comps.simps)

lemma first_comp_free: "slash \<notin> set (first_comp s)"
  using set_takeWhileD by (fastforce simp: first_comp_def)

lemma read_turn:
  assumes "pending r = s" "s \<noteq> []" "faults r = []"
  obtains r1 g e r2 where "peek 1 r = (([hd s], None), r1)"
    "read_string slash (skip_slash [hd s] r1) = ((g, e), r2)" "e = None \<or> e = Some EOF"
    "trim_suffix g ''/'' = first_comp s" "pending r2 = rest_comps s" "faults r2 = []"
proof -
  have one: "take 1 s = [hd s]" "\<not> length s < 1" using assms(2) by (cases s; simp)+
  then obtain r1 where r1: "peek 1 r = (([hd s], None), r1)" "pending r1 = s" "faults r1 = []"
    using bufio.rpeek_law [of 1 r] assms by auto
  let ?r = "skip_slash [hd s] r1"
  have pr: "pending ?r = after_slash s \<and> faults ?r = []"
    using bufio.rdiscard_law [of 1 r1] r1 assms(2)
    by (cases s) (auto simp: skip_slash_def after_slash_def)
  show ?thesis
  proof (cases "slash \<in> set (after_slash s)")
    case True
    then have "pending ?r = first_comp s @ slash # rest_comps s"
      using pr split_at_first [OF True] by (simp add: first_comp_def rest_comps_def)
    from bufio.rstring_found [OF first_comp_free this] show ?thesis using that r1 pr by fastforce
  next
    case False
    then have "\<forall>c \<in> set (after_slash s). c \<noteq> slash" by blast
    then have "dropWhile (\<lambda>c. c \<noteq> slash) (after_slash s) = []"
      "takeWhile (\<lambda>c. c \<noteq> slash) (after_slash s) = after_slash s"
      by (simp_all only: dropWhile_eq_Nil_conv takeWhile_eq_all_conv)
    then have fc: "first_comp s = after_slash s" "rest_comps s = []"
      by (simp_all only: first_comp_def rest_comps_def list.sel)
    from bufio.rstring_end [of slash ?r] pr False obtain r2 where
      "read_string slash ?r = ((after_slash s, Some EOF), r2)" "pending r2 = []" "faults r2 = []"
      by auto
    then show ?thesis using that [OF r1(1), of "after_slash s" "Some EOF" r2] fc False
      by (simp add: trim_suffix_free)
  qed
qed

section \<open>The loops and the components of a path\<close>

lemma peek_at_end:
  assumes "pending r = []" "faults r = []"
  obtains r1 where "peek 1 r = (([], Some EOF), r1)"
  using bufio.rpeek_law [of 1 r] assms by auto

lemma get_segments_from_comps:
  "pending r = s \<Longrightarrow> faults r = [] \<Longrightarrow> get_segments_from parts r = Ret (parts @ map segment_of (comps s))"
proof (induction s arbitrary: r parts rule: comps.induct)
  case (1 s)
  show ?case
  proof (cases "s = []")
    case True
    then show ?thesis using 1(2,3) by (auto elim!: peek_at_end simp: get_segments_from.simps)
  next
    case False
    obtain r1 g e r2 where turn: "peek 1 r = (([hd s], None), r1)"
      "read_string slash (skip_slash [hd s] r1) = ((g, e), r2)" "e = None \<or> e = Some EOF"
      "trim_suffix g ''/'' = first_comp s" "pending r2 = rest_comps s" "faults r2 = []"
      by (rule read_turn [OF "1.prems"(1) False "1.prems"(2)])
    then have "get_segments_from parts r = get_segments_from (parts @ [segment_of (first_comp s)]) r2"
      by (auto simp: get_segments_from.simps [of parts r])
    with "1.IH" [OF False turn(5,6)] False show ?thesis by (simp add: comps.simps [of s])
  qed
qed

text \<open>Matching a segment list against the components.\<close>

definition accepts :: "path_segment \<Rightarrow> string \<Rightarrow> bool" where
  "accepts seg c \<longleftrightarrow> IsVar seg \<or> c = Part seg"

definition bindings :: "path_segment list \<Rightarrow> string list \<Rightarrow> string \<rightharpoonup> string" where
  "bindings segs cs = map_of (rev [(Part seg, c). (seg, c) \<leftarrow> zip segs cs, IsVar seg])"

lemma match_from_comps:
  "pending r = s \<Longrightarrow> faults r = [] \<Longrightarrow>
   match_from segs vars r = (if list_all2 accepts segs (comps s) then (True, vars ++ bindings segs (comps s))
     else (False, Map.empty))"
proof (induction segs arbitrary: vars r s)
  case Nil
  show ?case
  proof (cases "s = []")
    case True
    then show ?thesis using Nil by (auto elim!: peek_at_end simp: bindings_def)
  next
    case False
    from read_turn [OF Nil(1) False Nil(2)] obtain r1 where "peek 1 r = (([hd s], None), r1)" by blast
    then show ?thesis using False by (simp add: comps.simps [of s])
  qed
next
  case (Cons seg segs)
  show ?case
  proof (cases "s = []")
    case True
    then show ?thesis using Cons.prems by (auto elim!: peek_at_end)
  next
    case False
    obtain r1 g e r2 where turn: "peek 1 r = (([hd s], None), r1)"
      "read_string slash (skip_slash [hd s] r1) = ((g, e), r2)" "e = None \<or> e = Some EOF"
      "trim_suffix g ''/'' = first_comp s" "pending r2 = rest_comps s" "faults r2 = []"
      by (rule read_turn [OF Cons.prems(1) False Cons.prems(2)])
    have "match_from (seg # segs) vars r =
        (if accepts seg (first_comp s)
         then match_from segs (if IsVar seg then vars(Part seg \<mapsto> first_comp s) else vars) r2
         else (False, Map.empty))"
      using turn by (auto simp: accepts_def Let_def)
    also have "\<dots> = (if list_all2 accepts (seg # segs) (comps s)
        then (True, vars ++ bindings (seg # segs) (comps s)) else (False, Map.empty))"
      using False by (simp add: Cons.IH [OF turn(5,6)] comps.simps [of s] bindings_def map_add_upd_left)
    finally show ?thesis .
  qed
qed

theorem getPathSegments_comps: "getPathSegments pat = Ret (map segment_of (comps pat))"
  by (simp add: getPathSegments_def get_segments_from_comps)

theorem match_route_comps:
  "match_route route segs =
     (if list_all2 accepts segs (comps (to_lower route))
      then (True, bindings segs (comps (to_lower route))) else (False, Map.empty))"
  by (simp add: match_route_def match_from_comps)

section \<open>Paths given by their components\<close>

text \<open>The path whose components are \<open>cs\<close>.\<close>

definition path_of :: "string list \<Rightarrow> string" where
  "path_of cs = concat (map (\<lambda>c. slash # c) cs)"

definition comp_ok :: "string \<Rightarrow> bool" where
  "comp_ok c \<longleftrightarrow> c \<noteq> [] \<and> slash \<notin> set c"

lemma comps_slash: "slash \<notin> set c \<Longrightarrow> comps (slash # c) = [c]"
  "slash \<notin> set c \<Longrightarrow> comps (slash # c @ slash # s) = c # comps s"
proof -
  assume c: "slash \<notin> set c"
  then have "\<forall>x \<in> set c. x \<noteq> slash" by blast
  then have "dropWhile (\<lambda>x. x \<noteq> slash) c = []" "takeWhile (\<lambda>x. x \<noteq> slash) c = c"
    by (simp_all only: dropWhile_eq_Nil_conv takeWhile_eq_all_conv)
  then show "comps (slash # c) = [c]"
    by (simp add: comps.simps [of "slash # c"] first_comp_def rest_comps_def after_slash_def
        del: dropWhile_eq_Nil_conv takeWhile_eq_all_conv)
  show "comps (slash # c @ slash # s) = c # comps s"
    using c by (simp add: comps.simps [of "slash # c @ slash # s"] first_comp_def rest_comps_def after_slash_def)
qed

lemma comps_no_slash_first:
  "comp_ok c \<Longrightarrow> comps (c @ s) = comps (slash # c @ s)"
  by (cases c) (simp_all add: comps.simps [of "_ # _ @ s"] comps.simps [of "slash # _ # _ @ s"] first_comp_def
      rest_comps_def after_slash_def comp_ok_def, auto)

lemma comps_path_of: "\<forall>c \<in> set cs. comp_ok c \<Longrightarrow> comps (path_of cs) = cs"
proof (induction cs)
  case (Cons c cs)
  then have c: "slash \<notin> set c" by (simp add: comp_ok_def)
  show ?case
  proof (cases cs)
    case Nil
    then show ?thesis using comps_slash(1) [OF c] by (simp add: path_of_def)
  next
    case (Cons d ds)
    then have "comps (path_of (c # cs)) = c # comps (d @ path_of ds)"
      using comps_slash(2) [OF c, of "d @ path_of ds"] by (simp add: path_of_def)
    also have "comps (d @ path_of ds) = comps (path_of cs)"
      using comps_no_slash_first [of d "path_of ds"] Cons Cons.prems by (simp add: path_of_def)
    finally show ?thesis using Cons.IH Cons.prems by simp
  qed
qed (simp add: path_of_def)

text \<open>A slash at the end is not a component.\<close>

lemma comps_path_of_slash:
  "\<forall>c \<in> set cs. comp_ok c \<Longrightarrow> cs \<noteq> [] \<Longrightarrow> comps (path_of cs @ [slash]) = cs"
proof (induction cs)
  case (Cons c cs)
  then have c: "slash \<notin> set c" by (simp add: comp_ok_def)
  show ?case
  proof (cases cs)
    case Nil
    then show ?thesis using comps_slash(2) [OF c, of "[]"] by (simp add: path_of_def)
  next
    case (Cons d ds)
    then have "comps (path_of (c # cs) @ [slash]) = c # comps (d @ path_of ds @ [slash])"
      using comps_slash(2) [OF c, of "d @ path_of ds @ [slash]"] by (simp add: path_of_def)
    also have "comps (d @ path_of ds @ [slash]) = comps (path_of cs @ [slash])"
      using comps_no_slash_first [of d "path_of ds @ [slash]"] Cons Cons.prems by (simp add: path_of_def)
    finally show ?thesis using Cons.IH Cons Cons.prems by simp
  qed
qed simp

lemma lower_char_slash [simp]: "lower_char c = slash \<longleftrightarrow> c = slash"
proof -
  have "(of_char (char_of (n + 32) :: char) :: nat) = n + 32" if "n \<le> 90" for n :: nat
    using that by (simp add: of_char_of)
  then show ?thesis
    by (auto simp: lower_char_def Let_def dest!: arg_cong [of _ _ "of_char :: char \<Rightarrow> nat"])
qed

lemma slash_lower_char [simp]: "slash = lower_char c \<longleftrightarrow> c = slash"
  by (metis lower_char_slash)

lemma to_lower_path_of: "to_lower (path_of cs) = path_of (map to_lower cs)"
  by (induction cs) (auto simp: to_lower_def path_of_def lower_char_def Let_def)

lemma comp_ok_to_lower [simp]: "comp_ok (to_lower c) = comp_ok c"
  by (auto simp: comp_ok_def to_lower_def image_iff)

lemma comps_comp_free: "c \<in> set (comps s) \<Longrightarrow> slash \<notin> set c"
proof (induction s rule: comps.induct)
  case (1 s)
  then show ?case using first_comp_free by (auto simp: comps.simps [of s] split: if_splits)
qed

lemma bindings_comp: "bindings segs cs v = Some c \<Longrightarrow> c \<in> set cs"
  by (auto simp: bindings_def dest!: map_of_SomeD set_zip_rightD)

text \<open>C13. Routing: a request path with the components \<open>cs\<close>, with or without a slash at its end,
  matches a list of segments exactly when it has as many components as there are segments
  and each fixed segment is the lower-cased component; the variables get the lower-cased
  components at their places.\<close>

theorem route_matches_componentwise:
  assumes "\<forall>c \<in> set cs. comp_ok c \<and> is_ascii c" "cs \<noteq> []" "path = path_of cs \<or> path = path_of cs @ ''/''"
  shows "match_route path segs =
    (if list_all2 (\<lambda>seg c. IsVar seg \<or> Part seg = to_lower c) segs cs
     then (True, map_of (rev [(Part seg, to_lower c). (seg, c) \<leftarrow> zip segs cs, IsVar seg]))
     else (False, Map.empty))"
proof -
  have ok: "\<forall>c \<in> set (map to_lower cs). comp_ok c" "map to_lower cs \<noteq> []" using assms by auto
  have "to_lower path = path_of (map to_lower cs) \<or> to_lower path = path_of (map to_lower cs) @ [slash]"
    using assms(3) by (auto simp: to_lower_path_of [symmetric]) (simp_all add: to_lower_def lower_char_def Let_def)
  then have "comps (to_lower path) = map to_lower cs"
    using comps_path_of [OF ok(1)] comps_path_of_slash [OF ok] by auto
  then show ?thesis
    by (simp add: match_route_comps list_all2_map2 accepts_def bindings_def zip_map2 o_def
        split_def eq_commute [of _ "Part _"] cong: if_cong)
qed

theorem route_matches_componentwise_witness:
  "match_route ''/Files/A.txt/'' [segment_of ''files'', segment_of ''{fileName}'']
   = (True, [''fileName'' \<mapsto> ''a.txt''])"
proof -
  have seg: "segment_of ''files'' = \<lparr>Part = ''files'', IsVar = False\<rparr>"
    "segment_of ''{fileName}'' = \<lparr>Part = ''fileName'', IsVar = True\<rparr>"
    "to_lower ''Files'' = ''files''" "to_lower ''A.txt'' = ''a.txt''"
    by code_simp+
  have "match_route ''/Files/A.txt/'' [segment_of ''files'', segment_of ''{fileName}''] =
    (if list_all2 (\<lambda>seg c. IsVar seg \<or> Part seg = to_lower c)
       [segment_of ''files'', segment_of ''{fileName}''] [''Files'', ''A.txt'']
     then (True, map_of (rev [(Part seg, to_lower c). (seg, c) \<leftarrow>
       zip [segment_of ''files'', segment_of ''{fileName}''] [''Files'', ''A.txt''], IsVar seg]))
     else (False, Map.empty))"
    by (rule route_matches_componentwise) (simp_all add: comp_ok_def is_ascii_def path_of_def)
  then show ?thesis by (simp add: seg)
qed

end
