(* ===== verification/Http_Files.thy ===== *)
theory Http_Files
  imports Http_Strings
begin

text \<open>
  The files the HTTP server reads and writes (http-server-go/app/server.go: the two
  \<open>/files/\<close> handlers) as the code sees them through package os: \<open>Open\<close>, \<open>Stat\<close>,
  \<open>Create\<close> and \<open>Write\<close> on a map from cleaned paths to files and directories, in which what is
  there stands in directories that are there, apart from the working directory and the
  root. Which calls fail for other reasons is given from outside (\<open>os_faults\<close>).
\<close>

section \<open>Files\<close>

datatype node = File string | Dir nat

type_synonym file_system = "string \<rightharpoonup> node"

record os_faults =
  open_fails :: "string \<Rightarrow> bool"
  stat_fails :: "string \<Rightarrow> bool"
  create_fails :: "string \<Rightarrow> bool"
  write_stops :: "string \<Rightarrow> nat option"
  read_stops :: "string \<Rightarrow> nat option"

definition no_faults :: os_faults where
  "no_faults = \<lparr>open_fails = (\<lambda>_. False), stat_fails = (\<lambda>_. False), create_fails = (\<lambda>_. False),
     write_stops = (\<lambda>_. None), read_stops = (\<lambda>_. None)\<rparr>"

text \<open>The directories a path goes through, from the outside in, and whether they are there: a
  missing one is \<open>ENOENT\<close>, a file in its place \<open>ENOTDIR\<close>, which \<open>os.IsNotExist\<close> denies.\<close>

definition ancestors :: "string \<Rightarrow> string list" where
  "ancestors p = filter (\<lambda>a. a \<noteq> []) (map (\<lambda>i. take i p) (filter (\<lambda>i. p ! i = CHR ''/'') [0..<length p]))"

definition dirs_exist :: "string \<Rightarrow> file_system \<Rightarrow> bool" where
  "dirs_exist p fs \<longleftrightarrow> p \<noteq> []
     \<and> list_all (\<lambda>a. case fs a of Some (Dir n) \<Rightarrow> True | _ \<Rightarrow> False) (ancestors p)"

definition file_in_the_way :: "string \<Rightarrow> file_system \<Rightarrow> bool" where
  "file_in_the_way p fs \<longleftrightarrow> list_ex (\<lambda>a. case fs a of Some (File s) \<Rightarrow> True | _ \<Rightarrow> False) (ancestors p)"

text \<open>An open file is what \<open>Stat\<close> answers (the size) and a reader over its content.\<close>

datatype open_result = Opened "int go" reader | NotExist | OpenError

text \<open>A directory opens, has a size and cannot be read.\<close>

definition os_open :: "os_faults \<Rightarrow> string \<Rightarrow> file_system \<Rightarrow> open_result" where
  "os_open fl p fs =
     (if open_fails fl p then OpenError
      else (case fs p of
          None \<Rightarrow> if file_in_the_way p fs then OpenError else NotExist
        | Some (File s) \<Rightarrow>
            Opened (if stat_fails fl p then Err (IOError ''stat'') else Ret (int (length s)))
              (case read_stops fl p of None \<Rightarrow> string_reader s | Some k \<Rightarrow> new_reader [take k s] (IOError ''read''))
        | Some (Dir n) \<Rightarrow>
            Opened (if stat_fails fl p then Err (IOError ''stat'') else Ret (int n))
              (new_reader [] (IOError ''is a directory''))))"

text \<open>What the descriptor of an open file reads, on the disk as it is when it is read.\<close>

definition file_reader :: "os_faults \<Rightarrow> string \<Rightarrow> file_system \<Rightarrow> reader" where
  "file_reader fl p fs =
     (case fs p of
        Some (File s) \<Rightarrow> (case read_stops fl p of None \<Rightarrow> string_reader s | Some k \<Rightarrow> new_reader [take k s] (IOError ''read''))
      | _ \<Rightarrow> new_reader [] (IOError ''is a directory''))"

lemma os_open_reader: "os_open fl p fs = Opened stat content \<Longrightarrow> content = file_reader fl p fs"
  by (auto simp: os_open_def file_reader_def split: if_splits option.splits node.splits)

text \<open>\<open>Create\<close> truncates the file where there is one and makes it in a directory that is there.
  \<open>Write\<close> on the file just created writes from its
  start, over what another connection may have written there since; when it fails it
  leaves the bytes it wrote.\<close>

definition os_create :: "os_faults \<Rightarrow> string \<Rightarrow> file_system \<Rightarrow> file_system option" where
  "os_create fl p fs =
     (if create_fails fl p then None
      else (case fs p of
          Some (Dir n) \<Rightarrow> None
        | Some (File s) \<Rightarrow> Some (fs(p \<mapsto> File []))
        | None \<Rightarrow> if dirs_exist p fs then Some (fs(p \<mapsto> File [])) else None))"

definition write_at_start :: "string \<Rightarrow> file_system \<Rightarrow> string \<Rightarrow> file_system" where
  "write_at_start p fs s =
     fs(p \<mapsto> File (s @ drop (length s) (case fs p of Some (File old) \<Rightarrow> old | _ \<Rightarrow> [])))"

definition file_write :: "os_faults \<Rightarrow> string \<Rightarrow> string \<Rightarrow> file_system \<Rightarrow> bool \<times> file_system" where
  "file_write fl p s fs =
     (case write_stops fl p of
        Some k \<Rightarrow> if k < length s then (False, write_at_start p fs (take k s)) else (True, write_at_start p fs s)
      | None \<Rightarrow> (True, write_at_start p fs s))"

lemma os_create_possible:
  "\<forall>n. fs p \<noteq> Some (Dir n) \<Longrightarrow> fs p = None \<longrightarrow> dirs_exist p fs \<Longrightarrow> os_create no_faults p fs = Some (fs(p \<mapsto> File []))"
  by (auto simp: os_create_def no_faults_def split: option.splits node.splits)

lemma os_create_changes: "os_create fl p fs = Some fs' \<Longrightarrow> fs' = fs(p \<mapsto> File []) \<and> (\<forall>n. fs p \<noteq> Some (Dir n))"
  by (auto simp: os_create_def split: if_splits option.splits node.splits)

lemma file_write_changes: "file_write fl p s fs = (ok, fs') \<Longrightarrow> \<exists>t. fs' = fs(p \<mapsto> File t)"
  by (auto simp: file_write_def write_at_start_def split: if_splits option.splits)

section \<open>Joining the served directory and a name\<close>

text \<open>The path of an entry of a directory whose cleaned path is \<open>d\<close>.\<close>

definition entry_path :: "string \<Rightarrow> string \<Rightarrow> string" where
  "entry_path d name =
     (if d = ''.'' then name else if d = ''/'' then ''/'' @ name else d @ ''/'' @ name)"

lemma split_on_slash_append:
  "CHR ''/'' \<notin> set name \<Longrightarrow> split_on (CHR ''/'') (dir @ CHR ''/'' # name) = split_on (CHR ''/'') dir @ [name]"
  by (induction dir) (auto split: list.splits)

lemma clean_elems_snoc:
  "name \<noteq> [] \<Longrightarrow> name \<noteq> ''.'' \<Longrightarrow> name \<noteq> ''..'' \<Longrightarrow>
   clean_elems rooted out (es @ [name]) = clean_elems rooted out es @ [name]"
  by (induction rooted out es rule: clean_elems.induct) auto

lemma clean_elems_parts:
  "e \<in> set (clean_elems rooted out es) \<Longrightarrow> e \<in> set out \<or> e \<in> set es \<and> e \<noteq> [] \<and> e \<noteq> ''.''"
  by (induction rooted out es rule: clean_elems.induct) (auto split: if_splits dest: list.set_sel(2))

lemma join_with_snoc: "join_with sep (xs @ [x]) = (if xs = [] then x else join_with sep xs @ sep @ x)"
  by (induction sep xs rule: join_with.induct) (auto simp: neq_Nil_conv)

lemma join_with_eq_Nil: "[] \<notin> set xs \<Longrightarrow> join_with sep xs = [] \<longleftrightarrow> xs = []"
  by (induction sep xs rule: join_with.induct) auto

lemma join_with_free:
  "join_with ''/'' xs = s \<Longrightarrow> CHR ''/'' \<notin> set s \<Longrightarrow> [] \<notin> set xs \<Longrightarrow> xs = [] \<or> xs = [s]"
  by (cases "(''/'', xs)" rule: join_with.cases) auto

lemma hd_join_with: "xs \<noteq> [] \<Longrightarrow> [] \<notin> set xs \<Longrightarrow> hd (join_with sep xs) = hd (hd xs)"
  by (cases "(sep, xs)" rule: join_with.cases) auto

text \<open>A name without a slash that is no dot entry stays in the directory.\<close>

theorem path_join_entry:
  assumes "dir \<noteq> []" "name \<noteq> []" "name \<noteq> ''.''" "name \<noteq> ''..''" "CHR ''/'' \<notin> set name"
  shows "path_join dir name = entry_path (path_clean dir) name"
proof -
  let ?rooted = "hd dir = CHR ''/''"
  let ?es = "clean_elems ?rooted [] (split_on (CHR ''/'') dir)"
  note split = split_on_slash_append [OF assms(5), of dir]
  have part: "e \<noteq> [] \<and> e \<noteq> ''.'' \<and> CHR ''/'' \<notin> set e" if "e \<in> set ?es" for e
    using clean_elems_parts [OF that] split_on_parts_free [of e "CHR ''/''" dir] by simp
  have parts: "[] \<notin> set ?es" "''.'' \<notin> set ?es" "\<forall>e \<in> set ?es. CHR ''/'' \<notin> set e"
    using part by blast+
  have "[] \<notin> set (?es @ [name])" using parts(1) assms(2) by simp
  from join_with_eq_Nil [OF this] have ne: "join_with ''/'' (?es @ [name]) \<noteq> []" by simp
  have "path_join dir name = (let out = join_with ''/'' (clean_elems ?rooted [] (split_on (CHR ''/'') dir @ [name]))
      in if ?rooted then CHR ''/'' # out else if out = [] then ''.'' else out)"
    using assms(1,2) by (simp add: path_join_def path_clean_def split Let_def)
  then have join: "path_join dir name = (if ?rooted then [CHR ''/''] else []) @ join_with ''/'' (?es @ [name])"
    using ne by (cases "?rooted") (simp_all add: clean_elems_snoc assms(2-4) Let_def)
  have clean: "path_clean dir = (if ?rooted then CHR ''/'' # join_with ''/'' ?es
      else if ?es = [] then ''.'' else join_with ''/'' ?es)"
    using assms(1) parts(1) join_with_eq_Nil [of ?es "''/''"]
    by (cases "?rooted") (simp_all add: path_clean_def Let_def)
  show ?thesis
  proof (cases "?es = []")
    case True
    then show ?thesis by (cases "?rooted") (simp_all add: join clean entry_path_def)
  next
    case False
    have "join_with ''/'' ?es \<noteq> []" using join_with_eq_Nil [OF parts(1), of "''/''"] False by blast
    moreover have "join_with ''/'' ?es \<noteq> ''.''"
      using join_with_free [OF _ _ parts(1), of "''.''"] False parts(2) by auto
    moreover have "hd (hd ?es) \<noteq> CHR ''/''"
      using False parts hd_in_set [of ?es] hd_in_set [of "hd ?es"] by metis
    then have "join_with ''/'' ?es \<noteq> ''/''" using hd_join_with [OF False parts(1), of "''/''"] by auto
    ultimately show ?thesis using False
      by (cases "?rooted") (simp_all add: join clean entry_path_def join_with_snoc)
  qed
qed

end
