(* ===== verification/Http_Server.thy ===== *)
theory Http_Server
  imports Http_Response Http_Router Http_Files
begin

text \<open>
  The HTTP server: the pipeline (http-server-go/app/lib/http/pipeline.go) and the five
  handlers \<open>main\<close> registers (http-server-go/app/server.go). \<open>Handle\<close> takes one accepted
  connection from its first byte to its close. The state is the disk, which all connections
  share, and the connection; a fatal log entry, \<open>os.Exit\<close> and a panic end the process.
\<close>

section \<open>State and handlers\<close>

record http_state =
  disk :: file_system
  client :: http_conn

type_synonym handler = "http_request \<Rightarrow> http_response \<Rightarrow> http_state \<Rightarrow> http_state process"

text \<open>An answer on the connection, with the disk left alone.\<close>

definition answer :: "(http_conn \<Rightarrow> http_conn process) \<Rightarrow> http_state \<Rightarrow> http_state process" where
  "answer f st = proc_bind (f (client st)) (\<lambda>c. Goes (st\<lparr>client := c\<rparr>))"

definition NotFoundHandlerFunc :: "gzip_codec \<Rightarrow> handler" where
  "NotFoundHandlerFunc gz req res = answer (Send gz (res\<lparr>Status := Status404NotFound\<rparr>))"

definition root_handler :: "gzip_codec \<Rightarrow> handler" where
  "root_handler gz req res = answer (Send gz (res\<lparr>Status := Status200OK\<rparr>))"

definition server_error :: "gzip_codec \<Rightarrow> http_response \<Rightarrow> http_state \<Rightarrow> http_state process" where
  "server_error gz res = answer (Send gz (res\<lparr>Status := Status500InternalServerError\<rparr>))"

definition echo_handler :: "gzip_codec \<Rightarrow> handler" where
  "echo_handler gz req res =
     (case RouteVars req ''command'' of
        Some command \<Rightarrow> answer (SendPlain gz command res)
      | None \<Rightarrow> server_error gz res)"

definition uagent_handler :: "gzip_codec \<Rightarrow> handler" where
  "uagent_handler gz req res =
     (case Headers req ''user-agent'' of
        None \<Rightarrow> answer (SendPlain gz ''expected user-agent header to be sent''
          (res\<lparr>Status := Status500InternalServerError\<rparr>))
      | Some uagentheader \<Rightarrow> answer (SendPlain gz uagentheader res))"

definition fileread_handler :: "gzip_codec \<Rightarrow> os_faults \<Rightarrow> string \<Rightarrow> handler" where
  "fileread_handler gz fl dir req res st =
     (case RouteVars req ''fileName'' of
        None \<Rightarrow> server_error gz res st
      | Some filename \<Rightarrow>
          (case os_open fl (path_join dir filename) (disk st) of
             NotExist \<Rightarrow> answer (Send gz (res\<lparr>Status := Status404NotFound\<rparr>)) st
           | OpenError \<Rightarrow> server_error gz res st
           | Opened stat content \<Rightarrow> answer (SendFileStream gz stat content res) st))"

definition filewrite_handler :: "gzip_codec \<Rightarrow> os_faults \<Rightarrow> string \<Rightarrow> handler" where
  "filewrite_handler gz fl dir req res st =
     (case RouteVars req ''fileName'' of
        None \<Rightarrow> server_error gz res st
      | Some filename \<Rightarrow>
          (let p = path_join dir filename in
           case os_create fl p (disk st) of
             None \<Rightarrow> server_error gz res st
           | Some fs \<Rightarrow>
               (case file_write fl p (Body req) fs of
                  (False, fs1) \<Rightarrow> server_error gz res (st\<lparr>disk := fs1\<rparr>)
                | (True, fs1) \<Rightarrow>
                    answer (Send gz (res\<lparr>Status := Status201Created\<rparr>)) (st\<lparr>disk := fs1\<rparr>))))"

section \<open>Routes\<close>

record route_handler =
  pattern :: string
  segments :: "path_segment list"
  handle :: handler
  route_method :: string

definition NewRouteHandler :: "string \<Rightarrow> string \<Rightarrow> handler \<Rightarrow> route_handler go" where
  "NewRouteHandler meth routePattern h =
     (case getPathSegments routePattern of
        Ret segs \<Rightarrow> Ret \<lparr>pattern = routePattern, segments = segs, handle = h, route_method = to_lower meth\<rparr>
      | Err e \<Rightarrow> Err e
      | Panic \<Rightarrow> Panic)"

text \<open>The handlers of \<open>main\<close> in their order. It drops the error of \<open>NewRouteHandler\<close>; there
  is none, because \<open>getPathSegments\<close> does not fail (\<open>getPathSegments_comps\<close>).\<close>

definition main_handlers :: "gzip_codec \<Rightarrow> os_faults \<Rightarrow> string \<Rightarrow> route_handler list go" where
  "main_handlers gz fl filedir =
     go_bind (NewRouteHandler ''GET'' ''/'' (root_handler gz)) (\<lambda>root.
     go_bind (NewRouteHandler ''GET'' ''/echo/{command}'' (echo_handler gz)) (\<lambda>echo.
     go_bind (NewRouteHandler ''GET'' ''/user-agent'' (uagent_handler gz)) (\<lambda>uagent.
     go_bind (NewRouteHandler ''GET'' ''/files/{fileName}'' (fileread_handler gz fl filedir)) (\<lambda>fileread.
     go_bind (NewRouteHandler ''POST'' ''/files/{fileName}'' (filewrite_handler gz fl filedir)) (\<lambda>filewrite.
       Ret [root, echo, uagent, fileread, filewrite])))))"

section \<open>The pipeline\<close>

text \<open>The first part of \<open>Handle\<close>: the request, or the end of the process.\<close>

fun or_exit :: "'a go \<times> reader \<Rightarrow> ('a \<Rightarrow> reader \<Rightarrow> 'b process) \<Rightarrow> 'b process" where
  "or_exit (Ret a, r) f = f a r"
| "or_exit (Err e, r) f = Exits"
| "or_exit (Panic, r) f = Panics"

definition read_request :: "reader \<Rightarrow> http_request process" where
  "read_request reader =
     or_exit (readRequestLine reader) (\<lambda>rline reader.
     or_exit (readHeaderLines Map.empty reader) (\<lambda>headers reader.
     let req = \<lparr>HttpMethod = LineMethod rline, ReqVersion = LineVersion rline, Path = RequestPath rline,
                RouteVars = Map.empty, Headers = headers, Body = []\<rparr> in
     case (headers ''content-type'', headers ''content-length'') of
       (Some t, Some l) \<Rightarrow>
         or_exit (readBody (fst (atoi l)) reader) (\<lambda>body reader. Goes (req\<lparr>Body := body\<rparr>))
     | _ \<Rightarrow> Goes req))"

definition new_response :: "http_request \<Rightarrow> http_response" where
  "new_response req =
     \<lparr>Status = Status200OK, ResBody = None, ContentType = [], ContentLength = 0,
      ResVersion = Http1Dot1Version, Request = req,
      Encoding = (case Headers req ''accept-encoding'' of Some e \<Rightarrow> e | None \<Rightarrow> [])\<rparr>"

text \<open>The first handler of the method and path, with the request that carries the path's
  variables; the handler for 404 when there is none.\<close>

fun choose_handler :: "gzip_codec \<Rightarrow> route_handler list \<Rightarrow> http_request \<Rightarrow> handler \<times> http_request" where
  "choose_handler gz [] req = (NotFoundHandlerFunc gz, req)"
| "choose_handler gz (h # handlers) req =
     (if HttpMethod req \<noteq> route_method h then choose_handler gz handlers req
      else case match_route (Path req) (segments h) of
          (False, vars) \<Rightarrow> choose_handler gz handlers req
        | (True, vars) \<Rightarrow> (handle h, req\<lparr>RouteVars := vars\<rparr>))"

definition Handle :: "gzip_codec \<Rightarrow> route_handler list \<Rightarrow> reader \<Rightarrow> http_state \<Rightarrow> http_state process" where
  "Handle gz handlers reader st =
     proc_bind (read_request reader) (\<lambda>req.
       case choose_handler gz handlers req of
         (handlerFunc, req1) \<Rightarrow> handlerFunc req1 (new_response req) st)"

text \<open>The server's treatment of one connection: \<open>pieces\<close> is how its bytes arrive, \<open>e\<close> what
  reading it reports after the last one.\<close>

definition new_conn :: http_conn where
  "new_conn = \<lparr>sent = [], is_open = True\<rparr>"

definition serve ::
  "gzip_codec \<Rightarrow> os_faults \<Rightarrow> string \<Rightarrow> string list \<Rightarrow> go_error \<Rightarrow> file_system \<Rightarrow> http_state process" where
  "serve gz fl dir pieces e fs =
     (case main_handlers gz fl dir of
        Ret handlers \<Rightarrow> Handle gz handlers (new_reader pieces e) \<lparr>disk = fs, client = new_conn\<rparr>
      | Err er \<Rightarrow> Exits
      | Panic \<Rightarrow> Panics)"

end
