(* ===== verification/Http_Service.thy ===== *)
theory Http_Service
  imports Http_Server
begin

text \<open>
  What the HTTP server does with whole connections: which handler a request reaches, and
  the end-to-end behaviour of \<open>serve\<close> on the bytes a client sends.
\<close>

section \<open>The routes of main\<close>

lemma main_segments:
  "map segment_of (comps ''/'') = [\<lparr>Part = [], IsVar = False\<rparr>]"
  "map segment_of (comps ''/echo/{command}'') = [\<lparr>Part = ''echo'', IsVar = False\<rparr>, \<lparr>Part = ''command'', IsVar = True\<rparr>]"
  "map segment_of (comps ''/user-agent'') = [\<lparr>Part = ''user-agent'', IsVar = False\<rparr>]"
  "map segment_of (comps ''/files/{fileName}'') = [\<lparr>Part = ''files'', IsVar = False\<rparr>, \<lparr>Part = ''fileName'', IsVar = True\<rparr>]"
  "to_lower ''GET'' = ''get''" "to_lower ''POST'' = ''post''"
  by code_simp+

lemma main_handlers_are:
  "main_handlers gz fl dir = Ret
    [\<lparr>pattern = ''/'', segments = [\<lparr>Part = [], IsVar = False\<rparr>], handle = root_handler gz, route_method = ''get''\<rparr>,
     \<lparr>pattern = ''/echo/{command}'', segments = [\<lparr>Part = ''echo'', IsVar = False\<rparr>, \<lparr>Part = ''command'', IsVar = True\<rparr>],
      handle = echo_handler gz, route_method = ''get''\<rparr>,
     \<lparr>pattern = ''/user-agent'', segments = [\<lparr>Part = ''user-agent'', IsVar = False\<rparr>], handle = uagent_handler gz,
      route_method = ''get''\<rparr>,
     \<lparr>pattern = ''/files/{fileName}'', segments = [\<lparr>Part = ''files'', IsVar = False\<rparr>, \<lparr>Part = ''fileName'', IsVar = True\<rparr>],
      handle = fileread_handler gz fl dir, route_method = ''get''\<rparr>,
     \<lparr>pattern = ''/files/{fileName}'', segments = [\<lparr>Part = ''files'', IsVar = False\<rparr>, \<lparr>Part = ''fileName'', IsVar = True\<rparr>],
      handle = filewrite_handler gz fl dir, route_method = ''post''\<rparr>]"
  by (simp add: main_handlers_def NewRouteHandler_def getPathSegments_comps main_segments del: list.map)

text \<open>The table the five routes amount to, over the components of the lower-cased path.\<close>

definition route_table ::
  "gzip_codec \<Rightarrow> os_faults \<Rightarrow> string \<Rightarrow> string \<Rightarrow> string list \<Rightarrow> (handler \<times> (string \<rightharpoonup> string)) option" where
  "route_table gz fl dir meth cs =
     (case cs of
        [a] \<Rightarrow>
          if meth = ''get'' \<and> a = [] then Some (root_handler gz, Map.empty)
          else if meth = ''get'' \<and> a = ''user-agent'' then Some (uagent_handler gz, Map.empty)
          else None
      | [a, b] \<Rightarrow>
          if meth = ''get'' \<and> a = ''echo'' then Some (echo_handler gz, [''command'' \<mapsto> b])
          else if meth = ''get'' \<and> a = ''files'' then Some (fileread_handler gz fl dir, [''fileName'' \<mapsto> b])
          else if meth = ''post'' \<and> a = ''files'' then Some (filewrite_handler gz fl dir, [''fileName'' \<mapsto> b])
          else None
      | _ \<Rightarrow> None)"

lemma list_all2_one: "list_all2 P [x] cs \<longleftrightarrow> (\<exists>a. cs = [a] \<and> P x a)"
  by (cases cs) auto

lemma list_all2_two: "list_all2 P [x, y] cs \<longleftrightarrow> (\<exists>a b. cs = [a, b] \<and> P x a \<and> P y b)"
  by (auto simp: list_all2_Cons1)

lemma choose_main_handler:
  assumes "main_handlers gz fl dir = Ret hs"
  shows "choose_handler gz hs req =
    (case route_table gz fl dir (HttpMethod req) (comps (to_lower (Path req))) of
       Some (h, vars) \<Rightarrow> (h, req\<lparr>RouteVars := vars\<rparr>)
     | None \<Rightarrow> (NotFoundHandlerFunc gz, req))"
proof -
  define cs where "cs = comps (to_lower (Path req))"
  have m: "match_route (Path req) segs = (if list_all2 accepts segs cs then (True, bindings segs cs)
      else (False, Map.empty))" for segs
    by (simp add: match_route_comps cs_def)
  consider "cs = []" | a where "cs = [a]" | a b where "cs = [a, b]" | a b c ds where "cs = a # b # c # ds"
    by (metis list.exhaust)
  then show ?thesis using assms
    by cases (auto simp: main_handlers_are m list_all2_one list_all2_two accepts_def bindings_def
        route_table_def cs_def [symmetric])
qed

section \<open>Requests that are read\<close>

definition request_wire :: "string \<Rightarrow> string \<Rightarrow> (string \<times> string) list \<Rightarrow> string" where
  "request_wire meth target hs = line_wire meth target ''HTTP/1.1'' @ headers_wire hs"

definition declares_body :: "(string \<times> string) list \<Rightarrow> bool" where
  "declares_body hs \<longleftrightarrow> header_map hs ''content-type'' \<noteq> None \<and> header_map hs ''content-length'' \<noteq> None"

definition request_read :: "string \<Rightarrow> string \<Rightarrow> (string \<times> string) list \<Rightarrow> string \<Rightarrow> http_request" where
  "request_read meth target hs body =
     \<lparr>HttpMethod = to_lower meth, ReqVersion = ''HTTP/1.1'', Path = target, RouteVars = Map.empty,
      Headers = header_map hs, Body = body\<rparr>"

definition sendable :: "string \<Rightarrow> string \<Rightarrow> (string \<times> string) list \<Rightarrow> bool" where
  "sendable meth target hs \<longleftrightarrow>
     line_ok meth target ''HTTP/1.1'' \<and> (\<forall>h \<in> set hs. header_ok h)"

lemma read_request_without_body:
  assumes "sendable meth target hs" "\<not> declares_body hs" "pending r = request_wire meth target hs @ s"
  shows "read_request r = Goes (request_read meth target hs [])"
proof -
  obtain r1 r2 where "readRequestLine r
      = (Ret \<lparr>LineMethod = to_lower meth, RequestPath = target, LineVersion = ''HTTP/1.1''\<rparr>, r1)"
    "readHeaderLines Map.empty r1 = (Ret (header_map hs), r2)"
    using head_any_pieces [of meth target "''HTTP/1.1''" hs r s] assms(1,3)
    by (auto simp: sendable_def request_wire_def)
  then show ?thesis using assms(2)
    by (auto simp: read_request_def declares_body_def request_read_def Let_def split: option.splits)
qed

lemma read_request_with_body:
  assumes "sendable meth target hs" "header_map hs ''content-type'' \<noteq> None"
    and "header_map hs ''content-length'' = Some (itoa n)" "0 < n" "n \<le> 4096" "b \<noteq> []"
    and "length (request_wire meth target hs @ b) \<le> bufsize"
  shows "read_request (new_reader ((request_wire meth target hs @ b) # cs) e) =
    (if int (length (take (nat n) b)) \<noteq> n then Exits else Goes (request_read meth target hs (take (nat n) b)))"
proof -
  obtain t where t: "header_map hs ''content-type'' = Some t" using assms(2) by blast
  have "request_wire meth target hs @ b \<noteq> []" using assms(6) by simp
  note first = readRequestLine_first_piece [OF this assms(7), of cs e]
  obtain r1 where r1: "readRequestLine ((new_reader cs e)\<lparr>rbuf := request_wire meth target hs @ b\<rparr>)
      = (Ret \<lparr>LineMethod = to_lower meth, RequestPath = target, LineVersion = ''HTTP/1.1''\<rparr>, r1)"
    "readHeaderLines Map.empty r1 = (Ret (header_map hs), (new_reader cs e)\<lparr>rbuf := CRLF @ b\<rparr>)"
    using head_in_buffer [of meth target "''HTTP/1.1''" hs b "new_reader cs e"] assms(1)
    by (auto simp: sendable_def request_wire_def)
  have "in_int64 n" using assms(4,5) by (simp add: in_int64_def)
  then have a: "atoi (itoa n) = (n, None)" by simp
  have "make_ok 1 n" using assms(4,5) by (simp add: make_ok_def)
  note body = readBody_in_buffer [OF assms(6) this assms(4), of "new_reader cs e", simplified append_Cons append_Nil]
  show ?thesis
    by (simp add: read_request_def first r1 t assms(3) a body request_read_def Let_def)
qed

section \<open>From the request to its handler\<close>

lemma serve_request:
  assumes "read_request (new_reader pieces e) = Goes req"
  shows "serve gz fl dir pieces e fs =
    (case route_table gz fl dir (HttpMethod req) (comps (to_lower (Path req))) of
       Some (h, vars) \<Rightarrow> h (req\<lparr>RouteVars := vars\<rparr>) (new_response req) \<lparr>disk = fs, client = new_conn\<rparr>
     | None \<Rightarrow> NotFoundHandlerFunc gz req (new_response req) \<lparr>disk = fs, client = new_conn\<rparr>)"
proof -
  obtain hs where hs: "main_handlers gz fl dir = Ret hs" using main_handlers_are by blast
  show ?thesis
    by (simp add: serve_def hs Handle_def assms choose_main_handler [OF hs] split: option.splits)
qed

lemma serve_not_read:
  "read_request (new_reader pieces e) = Exits \<Longrightarrow> serve gz fl dir pieces e fs = Exits"
  "read_request (new_reader pieces e) = Panics \<Longrightarrow> serve gz fl dir pieces e fs = Panics"
  using main_handlers_are [of gz fl dir] by (auto simp: serve_def Handle_def)

lemma pending_new_reader [simp]: "pending (new_reader pieces e) = concat pieces"
  by (simp add: pending_def new_reader_def)

section \<open>Responses on the wire\<close>

definition accepts_gzip :: "(string \<times> string) list \<Rightarrow> bool" where
  "accepts_gzip hs \<longleftrightarrow>
     (case header_map hs ''accept-encoding'' of
        Some e \<Rightarrow> ''gzip'' \<in> set (split_pair (CHR '','') (CHR '' '') e)
      | None \<Rightarrow> False)"

lemma encoding_of_request:
  "choose_encoding (Encoding (new_response (request_read meth target hs body))) = (if accepts_gzip hs then ''gzip'' else [])"
proof -
  have "choose_encoding [] = []" by (simp add: choose_encoding_def)
  then show ?thesis using choose_encoding_cases
    by (auto simp: new_response_def request_read_def accepts_gzip_def choose_encoding_iff [symmetric]
        split: option.splits)
qed

definition header_line :: "string \<Rightarrow> string \<Rightarrow> string" where
  "header_line name val = name @ '': '' @ val @ CRLF"

definition response_wire :: "string \<Rightarrow> (string \<times> string) list \<Rightarrow> string \<Rightarrow> string" where
  "response_wire status hs body =
     ''HTTP/1.1 '' @ status @ CRLF @ concat (map (\<lambda>h. header_line (fst h) (snd h)) hs) @ CRLF @ body"

definition length_header :: "string \<Rightarrow> (string \<times> string) list" where
  "length_header body = (if body = [] then [] else [(''Content-Length'', itoa (int (length body)))])"

definition answered :: "file_system \<Rightarrow> string \<Rightarrow> http_state process" where
  "answered fs bytes = Goes \<lparr>disk = fs, client = \<lparr>sent = bytes, is_open = False\<rparr>\<rparr>"

lemmas response_simps = response_head_def response_wire_def writeHeader_def header_line_def
  HeaderContentType_def HeaderContentLength_def HeaderContentEncoding_def Http1Dot1Version_def

text \<open>The three kinds of answers the handlers give, to a client that does not accept gzip.\<close>

lemma answer_without_body:
  assumes "\<not> accepts_gzip hs"
  shows "answer (Send gz ((new_response (request_read meth target hs body))\<lparr>Status := s\<rparr>))
      \<lparr>disk = fs, client = new_conn\<rparr> = answered fs (response_wire s [] [])"
  using encoding_of_request [of meth target hs body] assms
  by (simp add: answer_def Send_def serializeResponse_plain answered_def new_conn_def response_simps)
     (simp add: new_response_def Http1Dot1Version_def)

lemma answer_plain:
  assumes "\<not> accepts_gzip hs"
  shows "answer (SendPlain gz text ((new_response (request_read meth target hs body))\<lparr>Status := s\<rparr>))
      \<lparr>disk = fs, client = new_conn\<rparr>
    = answered fs (response_wire s ((''Content-Type'', ''text/plain'') # length_header text) text)"
  using encoding_of_request [of meth target hs body] assms
  by (simp add: answer_def SendPlain_def Send_def serializeResponse_plain answered_def new_conn_def
      response_simps TextPlainContentType_def length_header_def)
     (simp add: new_response_def Http1Dot1Version_def)

text \<open>A file is sent with the size it had when its size was asked for.\<close>

lemma answer_sized:
  assumes "\<not> accepts_gzip hs" "pending content = text"
  shows "answer (SendFileStream gz (Ret (int (length old))) content (new_response (request_read meth target hs body)))
      \<lparr>disk = fs, client = new_conn\<rparr>
    = answered fs (response_wire ''200 OK'' ((''Content-Type'', ''application/octet-stream'') # length_header old) text)"
  using encoding_of_request [of meth target hs body] assms
  by (simp add: answer_def SendFileStream_def Send_def serializeResponse_plain answered_def new_conn_def
      response_simps OctetStreamContentType_def length_header_def)
     (simp add: new_response_def Http1Dot1Version_def Status200OK_def)

lemma new_response_status: "(new_response req)\<lparr>Status := Status200OK\<rparr> = new_response req"
  by (simp add: new_response_def)

lemma comps_of_lower_path:
  "\<forall>c \<in> set cs. comp_ok c \<Longrightarrow> comps (to_lower (path_of cs)) = map to_lower cs"
  by (simp add: to_lower_path_of comps_path_of)

text \<open>A path of two components, as the parameterised routes have it.\<close>

definition param_path :: "string \<Rightarrow> string \<Rightarrow> string" where
  "param_path first name = ''/'' @ first @ ''/'' @ name"

lemma comps_param_path:
  assumes "comp_ok name" "first = ''echo'' \<or> first = ''files''"
  shows "comps (to_lower (param_path first name)) = [first, to_lower name]"
proof -
  have "to_lower ''echo'' = ''echo''" "to_lower ''files'' = ''files''" by code_simp+
  then have "comp_ok first" "to_lower first = first" using assms(2) by (auto simp: comp_ok_def)
  with comps_of_lower_path [of "[first, name]"] assms(1) show ?thesis by (simp add: param_path_def path_of_def)
qed

section \<open>Sample requests\<close>

definition sample_headers :: "(string \<times> string) list" where
  "sample_headers = [(''Host'', ''localhost'')]"

definition gzip_headers :: "(string \<times> string) list" where
  "gzip_headers = [(''Host'', ''localhost''), (''Accept-Encoding'', ''br, gzip'')]"

definition post_headers :: "(string \<times> string) list" where
  "post_headers = [(''Content-Type'', ''text/plain''), (''Content-Length'', ''2'')]"

text \<open>A codec with the two properties asked of compress/gzip.\<close>

definition sample_codec :: gzip_codec where
  "sample_codec = \<lparr>compress = (\<lambda>s. CHR ''Z'' # s), decompress = (\<lambda>z. case z of [] \<Rightarrow> None | c # s \<Rightarrow> Some s)\<rparr>"

lemma sample_requests:
  "sendable ''GET'' (param_path ''echo'' ''Hi'') sample_headers" "\<not> declares_body sample_headers"
  "\<not> accepts_gzip sample_headers" "sendable ''GET'' (param_path ''echo'' ''Hi'') gzip_headers"
  "\<not> declares_body gzip_headers" "accepts_gzip gzip_headers"
  "sendable ''POST'' (param_path ''files'' ''a.TXT'') post_headers" "\<not> accepts_gzip post_headers"
  "header_map post_headers ''content-type'' \<noteq> None" "header_map post_headers ''content-length'' = Some (itoa 2)"
  "sendable ''GET'' (param_path ''files'' ''A.txt'') sample_headers" "sendable ''GET'' ''/'' gzip_headers"
  "sendable ''PUT'' (path_of [''files'', ''x'']) sample_headers" "line_ok ''GET'' ''/'' ''HTTP/1.1''"
  "comp_ok ''Hi'' \<and> is_ascii ''Hi''" "comp_ok ''a.TXT'' \<and> is_ascii ''a.TXT''" "comp_ok ''A.txt'' \<and> is_ascii ''A.txt''"
  "\<forall>c \<in> set [''files'', ''x'']. comp_ok c \<and> is_ascii c"
  "to_lower ''Hi'' = ''hi''" "to_lower ''A.txt'' = to_lower ''a.TXT''" "to_lower ''PUT'' = ''put''" "itoa 2 = ''2''"
  "length (request_wire ''POST'' (param_path ''files'' ''a.TXT'') post_headers) = 75"
  by code_simp+

section \<open>Properties\<close>

text \<open>C14. A well-formed \<open>GET /echo/<name>\<close> of a client that does not accept gzip and declares no body,
  the name an ASCII component of a path, in whatever pieces it arrives, is answered with the lower-cased
  name as plain text and its length, and the connection is closed.\<close>

theorem echo_answers_name:
  assumes "comp_ok name" "is_ascii name" "sendable ''GET'' (param_path ''echo'' name) hs"
    and "\<not> declares_body hs" "\<not> accepts_gzip hs"
    and "concat pieces = request_wire ''GET'' (param_path ''echo'' name) hs @ rest"
  shows "serve gz fl dir pieces e fs = answered fs
    (response_wire ''200 OK'' [(''Content-Type'', ''text/plain''), (''Content-Length'', itoa (int (length name)))]
      (to_lower name))"
proof -
  let ?req = "request_read ''GET'' (param_path ''echo'' name) hs []"
  have "read_request (new_reader pieces e) = Goes ?req"
    using assms(6) by (intro read_request_without_body [OF assms(3,4)]) simp
  moreover have "route_table gz fl dir (HttpMethod ?req) (comps (to_lower (Path ?req)))
      = Some (echo_handler gz, [''command'' \<mapsto> to_lower name])"
    using comps_param_path [OF assms(1)] by (simp add: request_read_def route_table_def main_segments)
  ultimately have "serve gz fl dir pieces e fs
      = answer (SendPlain gz (to_lower name) (new_response ?req)) \<lparr>disk = fs, client = new_conn\<rparr>"
    by (simp add: serve_request echo_handler_def)
  also have "\<dots> = answered fs (response_wire Status200OK
      ((''Content-Type'', ''text/plain'') # length_header (to_lower name)) (to_lower name))"
    using answer_plain [OF assms(5), where s = Status200OK] by (simp add: new_response_status)
  finally show ?thesis using assms(1)
    by (simp add: Status200OK_def length_header_def comp_ok_def to_lower_def)
qed

theorem echo_answers_name_witness:
  "serve sample_codec no_faults ''wwwroot'' [request_wire ''GET'' (param_path ''echo'' ''Hi'') sample_headers] EOF Map.empty
    = answered Map.empty
    (response_wire ''200 OK'' [(''Content-Type'', ''text/plain''), (''Content-Length'', ''2'')] ''hi'')"
  using echo_answers_name [OF conjunct1 [OF sample_requests(15)] conjunct2 [OF sample_requests(15)] sample_requests(1-3),
      of "[request_wire ''GET'' (param_path ''echo'' ''Hi'') sample_headers]" "[]" sample_codec no_faults "''wwwroot''" EOF Map.empty]
  by (simp add: sample_requests)

text \<open>C15. With \<open>Accept-Encoding: gzip\<close> the body is what the compressor makes of the name: its
  length is the one announced and it decompresses to the lower-cased name.\<close>

theorem echo_gzip_decompresses:
  assumes "comp_ok name" "is_ascii name" "sendable ''GET'' (param_path ''echo'' name) hs"
    and "\<not> declares_body hs" "accepts_gzip hs"
    and "concat pieces = request_wire ''GET'' (param_path ''echo'' name) hs @ rest"
    and "\<forall>s. decompress gz (compress gz s) = Some s" "decompress gz [] = None"
  shows "\<exists>z. decompress gz z = Some (to_lower name) \<and> serve gz fl dir pieces e fs = answered fs
    (response_wire ''200 OK'' [(''Content-Type'', ''text/plain''), (''Content-Encoding'', ''gzip''),
      (''Content-Length'', itoa (int (length z)))] z)"
proof -
  let ?req = "request_read ''GET'' (param_path ''echo'' name) hs []" and ?z = "compress gz (to_lower name)"
  have "read_request (new_reader pieces e) = Goes ?req"
    using assms(6) by (intro read_request_without_body [OF assms(3,4)]) simp
  moreover have "route_table gz fl dir (HttpMethod ?req) (comps (to_lower (Path ?req)))
      = Some (echo_handler gz, [''command'' \<mapsto> to_lower name])"
    using comps_param_path [OF assms(1)] by (simp add: request_read_def route_table_def main_segments)
  ultimately have "serve gz fl dir pieces e fs
      = answer (SendPlain gz (to_lower name) (new_response ?req)) \<lparr>disk = fs, client = new_conn\<rparr>"
    by (simp add: serve_request echo_handler_def)
  moreover have "?z \<noteq> []" using assms(7,8) by (metis option.distinct(1))
  ultimately have "serve gz fl dir pieces e fs = answered fs
    (response_wire ''200 OK'' [(''Content-Type'', ''text/plain''), (''Content-Encoding'', ''gzip''),
      (''Content-Length'', itoa (int (length ?z)))] ?z)"
    using encoding_of_request [of "''GET''" "param_path ''echo'' name" hs "[]"] assms(5,7)
    by (simp add: answer_def SendPlain_def Send_def serializeResponse_gzip answered_def new_conn_def
      response_simps TextPlainContentType_def)
     (simp add: new_response_def Http1Dot1Version_def Status200OK_def)
  then show ?thesis using assms(7) by blast
qed

theorem echo_gzip_decompresses_witness:
  "\<exists>z. decompress sample_codec z = Some ''hi''
    \<and> serve sample_codec no_faults ''wwwroot'' [request_wire ''GET'' (param_path ''echo'' ''Hi'') gzip_headers] EOF Map.empty
      = answered Map.empty (response_wire ''200 OK'' [(''Content-Type'', ''text/plain''), (''Content-Encoding'', ''gzip''),
        (''Content-Length'', itoa (int (length z)))] z)"
  using echo_gzip_decompresses [OF conjunct1 [OF sample_requests(15)] conjunct2 [OF sample_requests(15)] sample_requests(4-6),
      of "[request_wire ''GET'' (param_path ''echo'' ''Hi'') gzip_headers]" "[]" sample_codec no_faults "''wwwroot''" EOF Map.empty]
  by (simp add: sample_requests sample_codec_def)

text \<open>C12. What is posted under a name is served under it, where the served directory is there, no
  directory has the name, the file calls do not fail for other reasons and the clients do not
  accept gzip: after a well-formed \<open>POST /files/<name>\<close> with a body that is not empty, its length and type in
  the headers, and that arrives with the request in one piece of at most 4096 bytes, the
  client is answered 201, and \<open>GET\<close> of the same name in any capitals, without a body and in
  whatever pieces it arrives, returns the posted body. Names are ASCII components of a path.\<close>

theorem posted_file_is_served:
  assumes "comp_ok name" "is_ascii name" "comp_ok name2" "is_ascii name2" "to_lower name2 = to_lower name"
    and "sendable ''POST'' (param_path ''files'' name) hs" "sendable ''GET'' (param_path ''files'' name2) hs2"
    and "header_map hs ''content-type'' \<noteq> None"
    and "header_map hs ''content-length'' = Some (itoa (int (length body)))"
    and "body \<noteq> []" "length (request_wire ''POST'' (param_path ''files'' name) hs @ body) \<le> 4096"
    and "\<not> accepts_gzip hs" "\<not> accepts_gzip hs2" "\<not> declares_body hs2"
    and "concat pieces = request_wire ''GET'' (param_path ''files'' name2) hs2"
    and "\<forall>n. fs (path_join dir (to_lower name)) \<noteq> Some (Dir n)" "dirs_exist (path_join dir (to_lower name)) fs"
  shows "\<exists>fs'. serve gz no_faults dir [request_wire ''POST'' (param_path ''files'' name) hs @ body] e fs
        = answered fs' (response_wire ''201 Created'' [] [])
    \<and> serve gz no_faults dir pieces e2 fs' = answered fs'
        (response_wire ''200 OK'' [(''Content-Type'', ''application/octet-stream''),
          (''Content-Length'', itoa (int (length body)))] body)"
proof -
  let ?p = "path_join dir (to_lower name)" and ?req = "request_read ''POST'' (param_path ''files'' name) hs body"
    and ?req2 = "request_read ''GET'' (param_path ''files'' name2) hs2 []"
  let ?fs = "fs(?p \<mapsto> File body)"
  have "length body \<le> 4096" using assms(11) by simp
  then have "read_request (new_reader [request_wire ''POST'' (param_path ''files'' name) hs @ body] e) = Goes ?req"
    using read_request_with_body [OF assms(6,8,9) _ _ assms(10,11)] assms(10) by simp
  moreover have "route_table gz no_faults dir (HttpMethod ?req) (comps (to_lower (Path ?req)))
      = Some (filewrite_handler gz no_faults dir, [''fileName'' \<mapsto> to_lower name])"
    using comps_param_path [OF assms(1)] by (simp add: request_read_def route_table_def main_segments)
  moreover have "os_create no_faults ?p fs = Some (fs(?p \<mapsto> File []))"
    using assms(16,17) by (intro os_create_possible) auto
  ultimately have "serve gz no_faults dir [request_wire ''POST'' (param_path ''files'' name) hs @ body] e fs
      = answer (Send gz ((new_response ?req)\<lparr>Status := Status201Created\<rparr>)) \<lparr>disk = ?fs, client = new_conn\<rparr>"
    by (simp add: serve_request filewrite_handler_def file_write_def write_at_start_def no_faults_def request_read_def Let_def)
  then have post: "serve gz no_faults dir [request_wire ''POST'' (param_path ''files'' name) hs @ body] e fs
      = answered ?fs (response_wire ''201 Created'' [] [])"
    by (simp add: answer_without_body [OF assms(12)] Status201Created_def)
  have "read_request (new_reader pieces e2) = Goes ?req2"
    using assms(15) by (intro read_request_without_body [OF assms(7,14), of _ "[]"]) simp
  moreover have "route_table gz no_faults dir (HttpMethod ?req2) (comps (to_lower (Path ?req2)))
      = Some (fileread_handler gz no_faults dir, [''fileName'' \<mapsto> to_lower name])"
    using comps_param_path [OF assms(3)] assms(5) by (simp add: request_read_def route_table_def main_segments)
  ultimately have "serve gz no_faults dir pieces e2 ?fs
      = answer (SendFileStream gz (Ret (int (length body))) (string_reader body) (new_response ?req2))
          \<lparr>disk = ?fs, client = new_conn\<rparr>"
    by (simp add: serve_request fileread_handler_def os_open_def no_faults_def)
  also have "\<dots> = answered ?fs (response_wire ''200 OK'' [(''Content-Type'', ''application/octet-stream''),
          (''Content-Length'', itoa (int (length body)))] body)"
    using answer_sized [OF assms(13) string_reader_pending(1), of gz body] assms(10) by (simp add: length_header_def)
  finally show ?thesis using post by blast
qed

definition served_disk :: file_system where
  "served_disk = [''wwwroot'' \<mapsto> Dir 1]"

lemma served_disk:
  "dirs_exist (path_join ''wwwroot'' (to_lower ''a.TXT'')) served_disk"
  "served_disk (path_join ''wwwroot'' (to_lower ''a.TXT'')) = None"
  by code_simp+

theorem posted_file_is_served_witness:
  "\<exists>fs'. serve sample_codec no_faults ''wwwroot'' [request_wire ''POST'' (param_path ''files'' ''a.TXT'') post_headers @ ''ok'']
        EOF served_disk = answered fs' (response_wire ''201 Created'' [] [])
    \<and> serve sample_codec no_faults ''wwwroot'' [request_wire ''GET'' (param_path ''files'' ''A.txt'') sample_headers] EOF fs'
      = answered fs' (response_wire ''200 OK'' [(''Content-Type'', ''application/octet-stream''),
          (''Content-Length'', ''2'')] ''ok'')"
  using posted_file_is_served [OF conjunct1 [OF sample_requests(16)] conjunct2 [OF sample_requests(16)]
      conjunct1 [OF sample_requests(17)] conjunct2 [OF sample_requests(17)] sample_requests(20,7,11,9),
      of "''ok''" "[request_wire ''GET'' (param_path ''files'' ''A.txt'') sample_headers]" served_disk "''wwwroot''"
      sample_codec EOF EOF] served_disk
  by (simp add: sample_requests)

text \<open>A path no route knows, or a method the route is not registered for, is answered
  with 404 and leaves the disk alone.\<close>

theorem unknown_path_is_404:
  assumes "\<forall>c \<in> set cs. comp_ok c \<and> is_ascii c" "sendable meth (path_of cs) hs" "\<not> declares_body hs"
    and "\<not> accepts_gzip hs" "concat pieces = request_wire meth (path_of cs) hs @ rest"
    and "to_lower meth = ''get'' \<longrightarrow> map to_lower cs \<noteq> [''user-agent'']
      \<and> (\<forall>x. map to_lower cs \<noteq> [''echo'', x] \<and> map to_lower cs \<noteq> [''files'', x])"
    and "to_lower meth = ''post'' \<longrightarrow> (\<forall>x. map to_lower cs \<noteq> [''files'', x])"
  shows "serve gz fl dir pieces e fs = answered fs (response_wire ''404 Not Found'' [] [])"
proof -
  let ?req = "request_read meth (path_of cs) hs []"
  have "read_request (new_reader pieces e) = Goes ?req"
    using assms(5) by (intro read_request_without_body [OF assms(2,3)]) simp
  moreover have "comps (to_lower (path_of cs)) = map to_lower cs"
    using assms(1) by (intro comps_of_lower_path) blast
  moreover have "route_table gz fl dir (to_lower meth) (map to_lower cs) = None"
  proof -
    consider "cs = []" | a where "cs = [a]" | a b where "cs = [a, b]" | a b c ds where "cs = a # b # c # ds"
      by (metis list.exhaust)
    then show ?thesis using assms(1,6,7)
      by cases (auto simp: route_table_def comp_ok_def to_lower_def split: if_splits)
  qed
  ultimately have "serve gz fl dir pieces e fs
      = answer (Send gz ((new_response ?req)\<lparr>Status := Status404NotFound\<rparr>)) \<lparr>disk = fs, client = new_conn\<rparr>"
    by (simp add: serve_request NotFoundHandlerFunc_def request_read_def)
  then show ?thesis by (simp add: answer_without_body [OF assms(4)] Status404NotFound_def)
qed

theorem unknown_path_is_404_witness:
  "serve sample_codec no_faults ''wwwroot'' [request_wire ''PUT'' (path_of [''files'', ''x'']) sample_headers] EOF Map.empty
    = answered Map.empty (response_wire ''404 Not Found'' [] [])"
  by (rule unknown_path_is_404 [OF sample_requests(18,13,2,3), of _ "[]"]) (simp_all add: sample_requests)

text \<open>A client that accepts gzip and asks for the root ends the process: the response has
  no body, and compressing it uses a nil reader.\<close>

theorem root_with_gzip_panics:
  assumes "sendable ''GET'' ''/'' hs" "\<not> declares_body hs" "accepts_gzip hs"
    and "concat pieces = request_wire ''GET'' ''/'' hs @ rest"
  shows "serve gz fl dir pieces e fs = Panics"
proof -
  let ?req = "request_read ''GET'' ''/'' hs []"
  have "read_request (new_reader pieces e) = Goes ?req"
    using assms(4) by (intro read_request_without_body [OF assms(1,2)]) simp
  moreover have "comps (to_lower ''/'') = [[]]" by code_simp
  ultimately have "serve gz fl dir pieces e fs
      = answer (Send gz ((new_response ?req)\<lparr>Status := Status200OK\<rparr>)) \<lparr>disk = fs, client = new_conn\<rparr>"
    by (simp add: serve_request request_read_def route_table_def main_segments root_handler_def)
  moreover have "serializeResponse gz ((new_response ?req)\<lparr>Status := Status200OK\<rparr>) new_conn = Panics"
    using encoding_of_request [of "''GET''" "''/''" hs "[]"] assms(3)
    by (intro serializeResponse_nil_gzip) (simp_all add: new_response_def)
  ultimately show ?thesis by (simp add: answer_def Send_def)
qed

theorem root_with_gzip_panics_witness:
  "serve sample_codec no_faults ''wwwroot'' [request_wire ''GET'' ''/'' gzip_headers] EOF Map.empty = Panics"
  by (rule root_with_gzip_panics [OF sample_requests(12,5,6), of _ "[]"]) simp

text \<open>A client that closes the connection after the request line ends the process: the
  header reader looks at the first of no bytes.\<close>

theorem close_after_request_line_panics:
  assumes "line_ok meth target version" "concat pieces = line_wire meth target version"
  shows "serve gz fl dir pieces e fs = Panics"
proof -
  obtain r1 where r1: "readRequestLine (new_reader pieces e)
      = (Ret \<lparr>LineMethod = to_lower meth, RequestPath = target, LineVersion = version\<rparr>, r1)" "pending r1 = []"
    by (rule any_pieces.request_line_read [OF assms(1), of "new_reader pieces e" "[]"]) (simp_all add: assms(2))
  have "fst (readHeaderLines Map.empty r1) = Panic"
    using bufio.rpeek_law [of 2 r1] r1(2) by (auto simp: readHeaderLines.simps [of _ r1] is_crlf_def)
  then have "read_request (new_reader pieces e) = Panics"
    by (cases "readHeaderLines Map.empty r1") (simp add: read_request_def r1(1))
  then show ?thesis by (rule serve_not_read)
qed

theorem close_after_request_line_panics_witness:
  "serve sample_codec no_faults ''wwwroot'' [line_wire ''GET'' ''/'' ''HTTP/1.1''] EOF Map.empty = Panics"
  by (rule close_after_request_line_panics [OF sample_requests(14)]) simp

text \<open>A body that does not arrive whole with the headers ends the process, even when the
  rest of it is under way (\<open>cs\<close>): the body is read once.\<close>

theorem body_in_two_pieces_exits:
  assumes "sendable meth target hs" "header_map hs ''content-type'' \<noteq> None"
    and "header_map hs ''content-length'' = Some (itoa (int (length b + length b2)))"
    and "b \<noteq> []" "b2 \<noteq> []" "length (b @ b2) \<le> 4096" "length (request_wire meth target hs @ b) \<le> 4096"
  shows "serve gz fl dir [request_wire meth target hs @ b, b2] e fs = Exits"
proof (rule serve_not_read)
  have "0 < int (length b) + int (length b2)" using assms(5) by (cases b2) auto
  then show "read_request (new_reader [request_wire meth target hs @ b, b2] e) = Exits"
    using read_request_with_body [OF assms(1-3) _ _ assms(4,7), of "[b2]" e] assms(5,6) by simp
qed

theorem body_in_two_pieces_exits_witness:
  "serve sample_codec no_faults ''wwwroot'' [request_wire ''POST'' (param_path ''files'' ''a.TXT'') post_headers @ ''o'', ''k'']
    EOF Map.empty = Exits"
  using sample_requests(23)
  by (intro body_in_two_pieces_exits [OF sample_requests(7,9)]) (simp_all add: sample_requests)

section \<open>Confinement\<close>

lemma answer_disk: "answer f st = Goes st' \<Longrightarrow> disk st' = disk st"
  by (auto simp: answer_def)

lemma answer_handlers_disk:
  "NotFoundHandlerFunc gz req res st = Goes st' \<Longrightarrow> disk st' = disk st"
  "root_handler gz req res st = Goes st' \<Longrightarrow> disk st' = disk st"
  "server_error gz res st = Goes st' \<Longrightarrow> disk st' = disk st"
  "echo_handler gz req res st = Goes st' \<Longrightarrow> disk st' = disk st"
  "uagent_handler gz req res st = Goes st' \<Longrightarrow> disk st' = disk st"
  "fileread_handler gz fl dir req res st = Goes st' \<Longrightarrow> disk st' = disk st"
  by (auto simp: NotFoundHandlerFunc_def root_handler_def server_error_def echo_handler_def uagent_handler_def
      fileread_handler_def dest: answer_disk split: option.splits open_result.splits)

end
