(* ===== verification/Http_Flags.thy ===== *)
theory Http_Flags
  imports Http_Strings
begin

text \<open>
  The command line of the HTTP server (http-server-go/app/server.go): the two flags \<open>main\<close>
  defines, and what package flag makes of the arguments. \<open>main\<close> reads the port through the
  pointer that \<open>flag.Int\<close> returns before it calls \<open>flag.Parse\<close>, and the directory after it.
\<close>

section \<open>strconv.ParseInt with base 0\<close>

text \<open>An \<open>int\<close> flag is read with the base its prefix names, and underscores between digits.
  Which of the two errors a text has does not matter to package flag, so it is \<open>None\<close>.\<close>

definition lower_char :: "char \<Rightarrow> char" where
  "lower_char c = hd (to_lower [c])"

definition base_digit :: "char \<Rightarrow> nat option" where
  "base_digit c =
     (let n = of_char c; l = of_char (lower_char c) in
      if is_digit c then Some (n - 48) else if 97 \<le> l \<and> l \<le> 122 then Some (l - 97 + 10) else None)"

fun base_value :: "nat \<Rightarrow> nat \<Rightarrow> string \<Rightarrow> nat option" where
  "base_value b n [] = Some n"
| "base_value b n (c # cs) =
     (if c = CHR ''_'' then base_value b n cs
      else case base_digit c of
          Some d \<Rightarrow> if d < b then base_value b (b * n + d) cs else None
        | None \<Rightarrow> None)"

definition base_prefix :: "string \<Rightarrow> nat \<times> string" where
  "base_prefix s =
     (if hd s \<noteq> CHR ''0'' then (10, s)
      else if length s \<ge> 3 \<and> lower_char (s ! 1) = CHR ''b'' then (2, drop 2 s)
      else if length s \<ge> 3 \<and> lower_char (s ! 1) = CHR ''o'' then (8, drop 2 s)
      else if length s \<ge> 3 \<and> lower_char (s ! 1) = CHR ''x'' then (16, drop 2 s)
      else (8, tl s))"

text \<open>The last character: a digit or prefix, an underscore, or the start.\<close>

datatype last_seen = Start | Digit | Underscore | Other

fun underscores_from :: "bool \<Rightarrow> last_seen \<Rightarrow> string \<Rightarrow> bool" where
  "underscores_from hex l [] \<longleftrightarrow> l \<noteq> Underscore"
| "underscores_from hex l (c # cs) \<longleftrightarrow>
     (if is_digit c \<or> hex \<and> lower_char c \<in> set ''abcdef'' then underscores_from hex Digit cs
      else if c = CHR ''_'' then l = Digit \<and> underscores_from hex Underscore cs
      else l \<noteq> Underscore \<and> underscores_from hex Other cs)"

definition underscoreOK :: "string \<Rightarrow> bool" where
  "underscoreOK s =
     (if length s \<ge> 2 \<and> hd s = CHR ''0'' \<and> lower_char (s ! 1) \<in> set ''box''
      then underscores_from (lower_char (s ! 1) = CHR ''x'') Digit (drop 2 s)
      else underscores_from False Start s)"

definition parse_uint0 :: "string \<Rightarrow> nat option" where
  "parse_uint0 s =
     (if s = [] then None
      else case base_prefix s of (b, t) \<Rightarrow>
        (if CHR ''_'' \<in> set t \<and> \<not> underscoreOK s then None else base_value b 0 t))"

definition parse_int0 :: "string \<Rightarrow> int option" where
  "parse_int0 s =
     (case parse_sign s of (neg, body) \<Rightarrow>
       (case parse_uint0 body of
          None \<Rightarrow> None
        | Some n \<Rightarrow>
            (let v = (if neg then - int n else int n) in if in_int64 v then Some v else None)))"

section \<open>flag.Parse\<close>

record flags =
  directory :: string
  port :: int

text \<open>The values of the flags after their definition, before \<open>flag.Parse\<close>.\<close>

definition default_flags :: flags where
  "default_flags = \<lparr>directory = ''wwwroot'', port = 4221\<rparr>"

text \<open>The arguments are read, or the process ends with a status.\<close>

datatype parsed_flags = Parsed flags "string list" | Quits nat

definition set_flag :: "string \<Rightarrow> string \<Rightarrow> flags \<Rightarrow> flags option" where
  "set_flag name val c =
     (if name = ''directory'' then Some (c\<lparr>directory := val\<rparr>)
      else map_option (\<lambda>n. c\<lparr>port := n\<rparr>) (parse_int0 val))"

text \<open>The name of a flag, and the value after an equals sign.\<close>

definition split_flag :: "string \<Rightarrow> string \<times> string option" where
  "split_flag s =
     (takeWhile (\<lambda>c. c \<noteq> CHR ''='') s,
      if CHR ''='' \<in> set s then Some (tl (dropWhile (\<lambda>c. c \<noteq> CHR ''='') s)) else None)"

fun parse_flags :: "flags \<Rightarrow> string list \<Rightarrow> parsed_flags" where
  "parse_flags c [] = Parsed c []"
| "parse_flags c (s # args) =
     (if length s < 2 \<or> hd s \<noteq> CHR ''-'' then Parsed c (s # args)
      else if s = ''--'' then Parsed c args
      else
        (let text = (if s ! 1 = CHR ''-'' then drop 2 s else drop 1 s) in
         if text = [] \<or> hd text = CHR ''-'' \<or> hd text = CHR ''='' then Quits 2
         else case split_flag text of (name, val) \<Rightarrow>
           (if name \<notin> {''directory'', ''port''} then Quits (if name \<in> {''help'', ''h''} then 0 else 2)
            else case val of
                Some v \<Rightarrow> (case set_flag name v c of None \<Rightarrow> Quits 2 | Some c1 \<Rightarrow> parse_flags c1 args)
              | None \<Rightarrow>
                  (case args of
                     [] \<Rightarrow> Quits 2
                   | v # rest \<Rightarrow> (case set_flag name v c of None \<Rightarrow> Quits 2 | Some c1 \<Rightarrow> parse_flags c1 rest)))))"

text \<open>The address \<open>main\<close> listens on and the directory it serves.\<close>

definition http_config :: "string list \<Rightarrow> (string \<times> string) option" where
  "http_config args =
     (let p = port default_flags in
      case parse_flags default_flags args of
        Parsed c rest \<Rightarrow> Some (''0.0.0.0:'' @ itoa p, directory c)
      | Quits n \<Rightarrow> None)"

section \<open>Numbers in decimal\<close>

lemma base_digit_decimal: "is_digit c \<Longrightarrow> base_digit c = Some (digit_val c)"
  by (simp add: base_digit_def digit_val_def)

lemma base_value_digits:
  "\<forall>c \<in> set s. is_digit c \<Longrightarrow> parse_digits n s = (m, None) \<Longrightarrow> base_value 10 n s = Some m"
proof (induction s arbitrary: n)
  case (Cons c s)
  then have "is_digit c" by simp
  then have "c \<noteq> CHR ''_''" "digit_val c < 10" using digit_val_bound [of c] by (auto simp: is_digit_def)
  with Cons \<open>is_digit c\<close> show ?case by (auto simp: base_digit_decimal split: if_splits)
qed simp

lemma hd_dec_digits: "n \<noteq> 0 \<Longrightarrow> hd (dec_digits n) \<noteq> CHR ''0''"
proof (induction n rule: dec_digits.induct)
  case (1 n)
  show ?case
  proof (cases "n < 10")
    case True
    have "(of_char (digit_char n) :: nat) \<noteq> of_char (CHR ''0'')" using True 1(2) by (simp add: of_char_digit_char)
    then show ?thesis using True by (auto simp: dec_digits.simps [of n])
  next
    case False
    then have "hd (dec_digits n) = hd (dec_digits (n div 10))" by (simp add: dec_digits.simps [of n])
    then show ?thesis using 1(1) False by simp
  qed
qed

lemma parse_uint0_dec_digits:
  assumes "n \<le> max_uint64" shows "parse_uint0 (dec_digits n) = Some n"
proof (cases "n = 0")
  case True
  have "dec_digits 0 = ''0''" "parse_uint0 ''0'' = Some 0" by code_simp+
  then show ?thesis using True by simp
next
  case False
  have "\<forall>c \<in> set (dec_digits n). is_digit c" using dec_digits_are_digits by blast
  moreover from this have "CHR ''_'' \<notin> set (dec_digits n)" by (auto simp: is_digit_def)
  ultimately show ?thesis
    using base_value_digits [OF _ parse_dec_digits [OF assms]] hd_dec_digits [OF False]
    by (simp add: parse_uint0_def base_prefix_def)
qed

lemma parse_int0_itoa: "in_int64 n \<Longrightarrow> parse_int0 (itoa n) = Some n"
proof (cases "n < 0")
  case True
  moreover assume "in_int64 n"
  ultimately show ?thesis
    by (simp add: parse_int0_def itoa_def parse_sign_def parse_uint0_dec_digits in_int64_def)
next
  case False
  moreover assume "in_int64 n"
  ultimately show ?thesis by (simp add: parse_int0_def itoa_def parse_uint0_dec_digits in_int64_def)
qed

section \<open>Properties\<close>

text \<open>C33. The port flag has no effect: a port given on the command line is read and stored in
  the flag, after which the server listens on port 4221 all the same; the directory that
  is given is the one it serves. Whatever the arguments, the server that starts listens
  on no other port.\<close>

theorem port_flag_ignored:
  assumes "in_int64 n"
  shows "parse_flags default_flags [''-port'', itoa n, ''--directory='' @ dir] = Parsed \<lparr>directory = dir, port = n\<rparr> []
    \<and> http_config [''-port'', itoa n, ''--directory='' @ dir] = Some (''0.0.0.0:4221'', dir)
    \<and> (http_config args = Some (address, served) \<longrightarrow> address = ''0.0.0.0:4221'')"
proof -
  have p: "itoa 4221 = ''4221''" by code_simp
  have one: "parse_flags default_flags [''-port'', itoa n, ''--directory='' @ dir] = Parsed \<lparr>directory = dir, port = n\<rparr> []"
    using parse_int0_itoa [OF assms] by (simp add: split_flag_def set_flag_def default_flags_def)
  then show ?thesis using p by (auto simp: http_config_def default_flags_def Let_def split: parsed_flags.splits)
qed

theorem port_flag_ignored_witness:
  "http_config [''-port'', itoa 8080, ''--directory='' @ ''/srv''] = Some (''0.0.0.0:4221'', ''/srv'')"
  using port_flag_ignored [of 8080 "''/srv''"] by (simp add: in_int64_def)

end
