(* ===== verification/Http_Process.thy ===== *)
theory Http_Process
  imports Http_Service Http_Flags
begin

text \<open>
  A whole HTTP server process (\<open>main\<close> of http-server-go/app/server.go): how it starts, and
  the step relation of its goroutines, one per connection, over the disk they share. A
  connection is served in one step where it uses the disk at most once; the two handlers
  of files use it twice, and between the two uses the other goroutines run: \<open>Create\<close> and
  \<open>Write\<close> of a POST, \<open>Stat\<close> and reading of a GET. \<open>both_turns_serve\<close> shows that the steps of one
  connection together are \<open>serve\<close>.
\<close>

section \<open>Which handler\<close>

datatype endpoint = Root | Echo | UserAgent | FileRead | FileWrite | NotFound

fun endpoint_handler :: "gzip_codec \<Rightarrow> os_faults \<Rightarrow> string \<Rightarrow> endpoint \<Rightarrow> handler" where
  "endpoint_handler gz fl dir Root = root_handler gz"
| "endpoint_handler gz fl dir Echo = echo_handler gz"
| "endpoint_handler gz fl dir UserAgent = uagent_handler gz"
| "endpoint_handler gz fl dir FileRead = fileread_handler gz fl dir"
| "endpoint_handler gz fl dir FileWrite = filewrite_handler gz fl dir"
| "endpoint_handler gz fl dir NotFound = NotFoundHandlerFunc gz"

definition main_routes :: "(endpoint \<times> string \<times> string) list" where
  "main_routes = [(Root, ''GET'', ''/''), (Echo, ''GET'', ''/echo/{command}''), (UserAgent, ''GET'', ''/user-agent''),
     (FileRead, ''GET'', ''/files/{fileName}''), (FileWrite, ''POST'', ''/files/{fileName}'')]"

text \<open>The loop of \<open>Handle\<close> over the routes, with the name of the handler for its code.\<close>

fun first_match :: "(endpoint \<times> string \<times> string) list \<Rightarrow> http_request \<Rightarrow> endpoint \<times> http_request" where
  "first_match [] req = (NotFound, req)"
| "first_match ((ep, meth, pat) # routes) req =
     (if HttpMethod req \<noteq> to_lower meth then first_match routes req
      else case getPathSegments pat of
          Ret segs \<Rightarrow>
            (case match_route (Path req) segs of
               (False, vars) \<Rightarrow> first_match routes req
             | (True, vars) \<Rightarrow> (ep, req\<lparr>RouteVars := vars\<rparr>))
        | _ \<Rightarrow> first_match routes req)"

lemma choose_first_match:
  assumes "list_all2 (\<lambda>h (ep, meth, pat). handle h = endpoint_handler gz fl dir ep \<and> route_method h = to_lower meth
      \<and> getPathSegments pat = Ret (segments h)) hs routes"
  shows "choose_handler gz hs req = (case first_match routes req of (ep, req1) \<Rightarrow> (endpoint_handler gz fl dir ep, req1))"
  using assms by (induction rule: list_all2_induct) (auto split: prod.splits bool.splits)

lemma choose_main:
  assumes "main_handlers gz fl dir = Ret hs"
  shows "choose_handler gz hs req = (case first_match main_routes req of (ep, req1) \<Rightarrow> (endpoint_handler gz fl dir ep, req1))"
  using assms
  by (intro choose_first_match)
     (auto simp: main_routes_def main_handlers_def NewRouteHandler_def getPathSegments_comps simp del: list.map)

section \<open>Goroutines\<close>

text \<open>Waiting for the request; about to write a body to the file it created; about to send a
  file of which it knows the size; done.\<close>

datatype stage = Reading reader | Writing string string http_response | Sending string "int go" http_response | Answered

record http_worker =
  stage :: stage
  conn :: http_conn

text \<open>A handler that is run to its end.\<close>

definition to_the_end :: "(http_state \<Rightarrow> http_state process) \<Rightarrow> http_conn \<Rightarrow> file_system \<Rightarrow> (http_worker \<times> file_system) process" where
  "to_the_end f c fs = proc_bind (f \<lparr>disk = fs, client = c\<rparr>) (\<lambda>st. Goes (\<lparr>stage = Answered, conn = client st\<rparr>, disk st))"

definition start_write ::
  "gzip_codec \<Rightarrow> os_faults \<Rightarrow> string \<Rightarrow> http_request \<Rightarrow> http_response \<Rightarrow> http_conn \<Rightarrow> file_system \<Rightarrow> (http_worker \<times> file_system) process" where
  "start_write gz fl dir req res c fs =
     (case RouteVars req ''fileName'' of
        None \<Rightarrow> to_the_end (server_error gz res) c fs
      | Some filename \<Rightarrow>
          (let p = path_join dir filename in
           case os_create fl p fs of
             None \<Rightarrow> to_the_end (server_error gz res) c fs
           | Some fs1 \<Rightarrow> Goes (\<lparr>stage = Writing p (Body req) res, conn = c\<rparr>, fs1)))"

definition end_write ::
  "gzip_codec \<Rightarrow> os_faults \<Rightarrow> string \<Rightarrow> string \<Rightarrow> http_response \<Rightarrow> http_conn \<Rightarrow> file_system \<Rightarrow> (http_worker \<times> file_system) process" where
  "end_write gz fl p body res c fs =
     (case file_write fl p body fs of
        (False, fs1) \<Rightarrow> to_the_end (server_error gz res) c fs1
      | (True, fs1) \<Rightarrow> to_the_end (answer (Send gz (res\<lparr>Status := Status201Created\<rparr>))) c fs1)"

definition start_read ::
  "gzip_codec \<Rightarrow> os_faults \<Rightarrow> string \<Rightarrow> http_request \<Rightarrow> http_response \<Rightarrow> http_conn \<Rightarrow> file_system \<Rightarrow> (http_worker \<times> file_system) process" where
  "start_read gz fl dir req res c fs =
     (case RouteVars req ''fileName'' of
        None \<Rightarrow> to_the_end (server_error gz res) c fs
      | Some filename \<Rightarrow>
          (let p = path_join dir filename in
           case os_open fl p fs of
             NotExist \<Rightarrow> to_the_end (answer (Send gz (res\<lparr>Status := Status404NotFound\<rparr>))) c fs
           | OpenError \<Rightarrow> to_the_end (server_error gz res) c fs
           | Opened stat content \<Rightarrow> Goes (\<lparr>stage = Sending p stat res, conn = c\<rparr>, fs)))"

definition http_turn ::
  "gzip_codec \<Rightarrow> os_faults \<Rightarrow> string \<Rightarrow> http_worker \<Rightarrow> file_system \<Rightarrow> (http_worker \<times> file_system) process" where
  "http_turn gz fl dir w fs =
     (case stage w of
        Reading r \<Rightarrow>
          proc_bind (read_request r) (\<lambda>req.
            (case first_match main_routes req of (ep, req1) \<Rightarrow>
              (case ep of
                 FileWrite \<Rightarrow> start_write gz fl dir req1 (new_response req) (conn w) fs
               | FileRead \<Rightarrow> start_read gz fl dir req1 (new_response req) (conn w) fs
               | _ \<Rightarrow> to_the_end (endpoint_handler gz fl dir ep req1 (new_response req)) (conn w) fs)))
      | Writing p body res \<Rightarrow> end_write gz fl p body res (conn w) fs
      | Sending p stat res \<Rightarrow> to_the_end (answer (SendFileStream gz stat (file_reader fl p fs) res)) (conn w) fs
      | Answered \<Rightarrow> Goes (w, fs))"

section \<open>The process\<close>

record http_process =
  files_at :: file_system
  handlers :: "http_worker list"
  running :: bool

definition http_main :: "(string \<Rightarrow> bool) \<Rightarrow> string list \<Rightarrow> file_system \<Rightarrow> (string \<times> http_process) option" where
  "http_main can_listen args fs =
     (case http_config args of
        None \<Rightarrow> None
      | Some (address, dir) \<Rightarrow>
          if can_listen address then Some (dir, \<lparr>files_at = fs, handlers = [], running = True\<rparr>) else None)"

text \<open>A failed \<open>Accept\<close> is fatal, and so is a goroutine that panics or exits.\<close>

inductive http_step :: "gzip_codec \<Rightarrow> os_faults \<Rightarrow> string \<Rightarrow> http_process \<Rightarrow> http_process \<Rightarrow> bool"
  for gz :: gzip_codec and fl :: os_faults and dir :: string where
  accepted: "running p \<Longrightarrow>
    http_step gz fl dir p (p\<lparr>handlers := handlers p @ [\<lparr>stage = Reading (new_reader pieces e), conn = new_conn\<rparr>]\<rparr>)"
| accept_fails: "running p \<Longrightarrow> http_step gz fl dir p (p\<lparr>running := False\<rparr>)"
| goes: "running p \<Longrightarrow> i < length (handlers p) \<Longrightarrow>
    http_turn gz fl dir (handlers p ! i) (files_at p) = Goes (w, fs) \<Longrightarrow>
    http_step gz fl dir p (p\<lparr>files_at := fs, handlers := (handlers p)[i := w]\<rparr>)"
| dies: "running p \<Longrightarrow> i < length (handlers p) \<Longrightarrow>
    http_turn gz fl dir (handlers p ! i) (files_at p) \<in> {Exits, Panics} \<Longrightarrow>
    http_step gz fl dir p (p\<lparr>running := False\<rparr>)"

inductive http_run :: "gzip_codec \<Rightarrow> os_faults \<Rightarrow> string \<Rightarrow> http_process \<Rightarrow> http_process \<Rightarrow> bool"
  for gz :: gzip_codec and fl :: os_faults and dir :: string and p0 :: http_process where
  http_start: "http_run gz fl dir p0 p0"
| http_later: "http_run gz fl dir p0 p \<Longrightarrow> http_step gz fl dir p p' \<Longrightarrow> http_run gz fl dir p0 p'"

section \<open>One connection on its own\<close>

text \<open>The turns of one goroutine one after the other.\<close>

definition both_turns :: "gzip_codec \<Rightarrow> os_faults \<Rightarrow> string \<Rightarrow> http_worker \<Rightarrow> file_system \<Rightarrow> (http_worker \<times> file_system) process" where
  "both_turns gz fl dir w fs = proc_bind (http_turn gz fl dir w fs) (\<lambda>(w1, fs1). http_turn gz fl dir w1 fs1)"

lemma proc_bind_assoc: "proc_bind (proc_bind m f) g = proc_bind m (\<lambda>x. proc_bind (f x) g)"
  by (cases m) simp_all

lemma both_turns_end:
  "proc_bind (to_the_end f c fs) (\<lambda>(w, fs1). http_turn gz fl dir w fs1) = to_the_end f c fs"
  by (simp add: to_the_end_def proc_bind_assoc http_turn_def)

lemma both_turns_write:
  "proc_bind (start_write gz fl dir req res c fs) (\<lambda>(w, fs1). http_turn gz fl dir w fs1)
    = to_the_end (filewrite_handler gz fl dir req res) c fs"
proof (cases "RouteVars req ''fileName''")
  case None
  then show ?thesis by (simp add: start_write_def both_turns_end) (simp add: to_the_end_def filewrite_handler_def)
next
  case (Some filename)
  show ?thesis
  proof (cases "os_create fl (path_join dir filename) fs")
    case None
    with Some show ?thesis by (simp add: start_write_def both_turns_end Let_def) (simp add: to_the_end_def filewrite_handler_def)
  next
    case (Some fs1)
    with \<open>RouteVars req ''fileName'' = Some filename\<close> show ?thesis
      by (auto simp: start_write_def http_turn_def end_write_def to_the_end_def filewrite_handler_def Let_def
          split: prod.splits bool.splits)
  qed
qed

lemma both_turns_read:
  "proc_bind (start_read gz fl dir req res c fs) (\<lambda>(w, fs1). http_turn gz fl dir w fs1)
    = to_the_end (fileread_handler gz fl dir req res) c fs"
proof (cases "RouteVars req ''fileName''")
  case None
  then show ?thesis by (simp add: start_read_def both_turns_end) (simp add: to_the_end_def fileread_handler_def)
next
  case (Some filename)
  show ?thesis
  proof (cases "os_open fl (path_join dir filename) fs")
    case (Opened stat content)
    with \<open>RouteVars req ''fileName'' = Some filename\<close> os_open_reader [OF Opened] show ?thesis
      by (simp add: start_read_def http_turn_def to_the_end_def fileread_handler_def)
  next
    case NotExist
    with Some show ?thesis by (simp add: start_read_def both_turns_end) (simp add: to_the_end_def fileread_handler_def)
  next
    case OpenError
    with Some show ?thesis by (simp add: start_read_def both_turns_end) (simp add: to_the_end_def fileread_handler_def)
  qed
qed

lemma both_turns_serve:
  "both_turns gz fl dir \<lparr>stage = Reading (new_reader pieces e), conn = new_conn\<rparr> fs
    = proc_bind (serve gz fl dir pieces e fs) (\<lambda>st. Goes (\<lparr>stage = Answered, conn = client st\<rparr>, disk st))"
proof -
  obtain hs where hs: "main_handlers gz fl dir = Ret hs" using main_handlers_are by blast
  show ?thesis
  proof (cases "read_request (new_reader pieces e)")
    case (Goes req)
    obtain ep req1 where m: "first_match main_routes req = (ep, req1)" by fastforce
    have "serve gz fl dir pieces e fs = endpoint_handler gz fl dir ep req1 (new_response req) \<lparr>disk = fs, client = new_conn\<rparr>"
      by (simp add: serve_def hs Handle_def Goes choose_main [OF hs] m)
    then show ?thesis
      by (cases ep) (simp_all add: both_turns_def http_turn_def [of gz fl dir "\<lparr>stage = Reading _, conn = _\<rparr>"] Goes m
          both_turns_write both_turns_read both_turns_end to_the_end_def [symmetric])
  qed (simp_all add: both_turns_def http_turn_def serve_def hs Handle_def)
qed

section \<open>What the goroutines do to the disk\<close>

definition in_dir :: "string \<Rightarrow> string \<Rightarrow> bool" where
  "in_dir dir q \<longleftrightarrow> (\<exists>name. q = entry_path (path_clean dir) name \<and> name \<noteq> [] \<and> CHR ''/'' \<notin> set name
     \<and> name \<noteq> ''.'' \<and> name \<noteq> ''..'')"

text \<open>The served directory and its parent are directories.\<close>

definition dots_are_dirs :: "string \<Rightarrow> file_system \<Rightarrow> bool" where
  "dots_are_dirs dir fs \<longleftrightarrow> list_all (\<lambda>d. case fs (path_join dir d) of Some (Dir n) \<Rightarrow> True | _ \<Rightarrow> False) ['''', ''.'', ''..'']"

lemma first_match_write:
  assumes "first_match main_routes req = (FileWrite, req1)"
  shows "\<exists>a b. comps (to_lower (Path req)) = [a, b] \<and> req1 = req\<lparr>RouteVars := [''fileName'' \<mapsto> b]\<rparr>"
proof -
  define cs where "cs = comps (to_lower (Path req))"
  have m: "match_route (Path req) segs = (if list_all2 accepts segs cs then (True, bindings segs cs)
      else (False, Map.empty))" for segs
    by (simp add: match_route_comps cs_def)
  have b: "bindings [\<lparr>Part = ''files'', IsVar = False\<rparr>, \<lparr>Part = ''fileName'', IsVar = True\<rparr>] [a, x] = [''fileName'' \<mapsto> x]" for a x
    by (simp add: bindings_def)
  show ?thesis using assms unfolding cs_def [symmetric]
    by (auto simp: main_routes_def getPathSegments_comps main_segments m list_all2_two accepts_def b
        simp del: list.map split: if_splits)
qed

lemma to_the_end_disk:
  assumes "to_the_end f c fs = Goes (w, fs1)" "\<And>st st'. f st = Goes st' \<Longrightarrow> disk st' = disk st"
  shows "fs1 = fs \<and> stage w = Answered"
  using assms by (auto simp: to_the_end_def)

lemmas end_disk = to_the_end_disk [OF _ answer_handlers_disk(1)] to_the_end_disk [OF _ answer_handlers_disk(2)]
  to_the_end_disk [OF _ answer_handlers_disk(3)] to_the_end_disk [OF _ answer_handlers_disk(4)]
  to_the_end_disk [OF _ answer_handlers_disk(5)] to_the_end_disk [OF _ answer_disk]

lemma start_read_disk:
  "start_read gz fl dir req res c fs = Goes (w, fs1) \<Longrightarrow> fs1 = fs \<and> (\<forall>q b r. stage w \<noteq> Writing q b r)"
  by (auto simp: start_read_def Let_def dest: end_disk split: option.splits open_result.splits)

lemma start_write_disk:
  assumes "start_write gz fl dir req res c fs = Goes (w, fs1)" "RouteVars req ''fileName'' = Some name"
  shows "fs1 = fs \<and> stage w = Answered
    \<or> fs1 = fs(path_join dir name \<mapsto> File []) \<and> (\<forall>n. fs (path_join dir name) \<noteq> Some (Dir n))
      \<and> stage w = Writing (path_join dir name) (Body req) res"
  using assms by (auto simp: start_write_def Let_def dest: end_disk os_create_changes split: option.splits)

lemma end_write_disk:
  assumes "end_write gz fl q body res c fs = Goes (w, fs1)"
  shows "(\<exists>t. fs1 = fs(q \<mapsto> File t)) \<and> stage w = Answered"
proof -
  obtain ok fs2 where wr: "file_write fl q body fs = (ok, fs2)" by fastforce
  then have "fs1 = fs2 \<and> stage w = Answered" using assms by (auto simp: end_write_def dest: end_disk split: bool.splits)
  then show ?thesis using file_write_changes [OF wr] by simp
qed

section \<open>Confinement\<close>

definition confined :: "string \<Rightarrow> file_system \<Rightarrow> file_system \<Rightarrow> http_worker list \<Rightarrow> bool" where
  "confined dir fs0 fs ws \<longleftrightarrow> (\<forall>q. fs q \<noteq> fs0 q \<longrightarrow> in_dir dir q)
     \<and> (\<forall>q n. fs0 q = Some (Dir n) \<longrightarrow> fs q = Some (Dir n))
     \<and> (\<forall>w \<in> set ws. \<forall>q b res. stage w = Writing q b res \<longrightarrow> in_dir dir q \<and> (\<forall>n. fs0 q \<noteq> Some (Dir n)))"

lemma confined_cases:
  assumes "confined dir fs0 fs ws" "dots_are_dirs dir fs0" "dir \<noteq> []" "CHR ''/'' \<notin> set name"
    and "\<forall>n. fs (path_join dir name) \<noteq> Some (Dir n)"
  shows "in_dir dir (path_join dir name)" "\<forall>n. fs0 (path_join dir name) \<noteq> Some (Dir n)"
proof -
  show dirs: "\<forall>n. fs0 (path_join dir name) \<noteq> Some (Dir n)" using assms(1,5) by (auto simp: confined_def)
  have "name \<noteq> ''''" "name \<noteq> ''.''" "name \<noteq> ''..''"
    using dirs assms(2) by (auto simp: dots_are_dirs_def split: option.splits node.splits)
  with path_join_entry [OF assms(3) this assms(4)] assms(4) show "in_dir dir (path_join dir name)"
    by (auto simp: in_dir_def)
qed

lemma confined_write:
  assumes "confined dir fs0 fs ws" "in_dir dir q" "\<forall>n. fs0 q \<noteq> Some (Dir n)"
    and "\<And>q' b res. stage w = Writing q' b res \<Longrightarrow> q' = q"
  shows "confined dir fs0 (fs(q \<mapsto> File t)) (ws[i := w])"
  using assms set_update_subset_insert [of ws i w] by (fastforce simp: confined_def)

lemma confined_keep:
  assumes "confined dir fs0 fs ws" "\<forall>q b res. stage w \<noteq> Writing q b res"
  shows "confined dir fs0 fs (ws[i := w])"
  using assms set_update_subset_insert [of ws i w] by (fastforce simp: confined_def)

lemma confined_start_write:
  assumes "confined dir fs0 fs ws" "dots_are_dirs dir fs0" "dir \<noteq> []"
    and "first_match main_routes req = (FileWrite, req1)"
    and "start_write gz fl dir req1 res c fs = Goes (w, fs1)"
  shows "confined dir fs0 fs1 (ws[i := w])"
proof -
  obtain a name where name: "comps (to_lower (Path req)) = [a, name]" "req1 = req\<lparr>RouteVars := [''fileName'' \<mapsto> name]\<rparr>"
    using first_match_write [OF assms(4)] by blast
  then have free: "CHR ''/'' \<notin> set name" using comps_comp_free [of name "to_lower (Path req)"] by simp
  from start_write_disk [OF assms(5), of name] name(2) consider "fs1 = fs" "stage w = Answered"
    | "fs1 = fs(path_join dir name \<mapsto> File [])" "\<forall>n. fs (path_join dir name) \<noteq> Some (Dir n)"
      "stage w = Writing (path_join dir name) (Body req1) res" by auto
  then show ?thesis
  proof cases
    case 1
    then show ?thesis using confined_keep [OF assms(1)] by simp
  next
    case 2
    have "confined dir fs0 (fs(path_join dir name \<mapsto> File [])) (ws[i := w])"
      by (rule confined_write [OF assms(1) confined_cases [OF assms(1-3) free 2(2)]]) (simp add: 2(3))
    then show ?thesis by (simp add: 2(1))
  qed
qed

lemma confined_turn:
  assumes "confined dir fs0 fs ws" "dots_are_dirs dir fs0" "dir \<noteq> []" "i < length ws"
    and "http_turn gz fl dir (ws ! i) fs = Goes (w, fs1)"
  shows "confined dir fs0 fs1 (ws[i := w])"
proof (cases "stage (ws ! i)")
  case (Reading r)
  then obtain req where req: "read_request r = Goes req" using assms(5) by (auto simp: http_turn_def)
  obtain ep req1 where m: "first_match main_routes req = (ep, req1)" by fastforce
  show ?thesis
  proof (cases "ep = FileWrite")
    case True
    then have "start_write gz fl dir req1 (new_response req) (conn (ws ! i)) fs = Goes (w, fs1)"
      using assms(5) Reading req m by (simp add: http_turn_def)
    from confined_start_write [OF assms(1-3) _ this] m True show ?thesis by simp
  next
    case False
    then have "fs1 = fs \<and> (\<forall>q b res. stage w \<noteq> Writing q b res)"
      using assms(5) Reading req m by (cases ep) (auto simp: http_turn_def dest: end_disk start_read_disk)
    then show ?thesis using confined_keep [OF assms(1)] by simp
  qed
next
  case (Writing q body res)
  then have q: "in_dir dir q" "\<forall>n. fs0 q \<noteq> Some (Dir n)"
    using assms(1) nth_mem [OF assms(4)] unfolding confined_def by blast+
  have "(\<exists>t. fs1 = fs(q \<mapsto> File t)) \<and> stage w = Answered"
    using assms(5) Writing by (intro end_write_disk) (simp add: http_turn_def)
  then obtain t where t: "fs1 = fs(q \<mapsto> File t)" "stage w = Answered" by blast
  have "confined dir fs0 (fs(q \<mapsto> File t)) (ws[i := w])"
    by (rule confined_write [OF assms(1) q]) (simp add: t)
  then show ?thesis by (simp add: t)
next
  case (Sending q stat res)
  then have "fs1 = fs \<and> stage w = Answered" using assms(5) by (auto simp: http_turn_def dest: end_disk)
  then show ?thesis using confined_keep [OF assms(1)] by simp
next
  case Answered
  then have "fs1 = fs \<and> stage w = Answered" using assms(5) by (auto simp: http_turn_def)
  then show ?thesis using confined_keep [OF assms(1)] by simp
qed

lemma confined_run:
  assumes "http_run gz fl dir p0 p" "handlers p0 = []" "dots_are_dirs dir (files_at p0)" "dir \<noteq> []"
  shows "confined dir (files_at p0) (files_at p) (handlers p)"
  using assms(1)
proof (induction rule: http_run.induct)
  case http_start
  then show ?case using assms(2) by (simp add: confined_def)
next
  case (http_later p p')
  from http_later(2) http_later(3) show ?case
  proof cases
    case (accepted pieces e)
    then show ?thesis using http_later(3) by (auto simp: confined_def)
  next
    case accept_fails
    then show ?thesis using http_later(3) by simp
  next
    case (goes i w fs)
    then show ?thesis using confined_turn [OF http_later(3) assms(3,4)] by simp
  next
    case (dies i)
    then show ?thesis using http_later(3) by simp
  qed
qed

section \<open>Posts and gets of one file\<close>

text \<open>What a client sends to post \<open>body\<close> under a name that is \<open>name\<close> in lower case, the body
  in one piece with the headers, and to get it; neither accepts gzip.\<close>

definition posts :: "string \<Rightarrow> string \<Rightarrow> string list \<Rightarrow> bool" where
  "posts name body pieces \<longleftrightarrow> (\<exists>nm hs. pieces = [request_wire ''POST'' (param_path ''files'' nm) hs @ body]
     \<and> comp_ok nm \<and> to_lower nm = name \<and> sendable ''POST'' (param_path ''files'' nm) hs
     \<and> header_map hs ''content-type'' \<noteq> None \<and> header_map hs ''content-length'' = Some (itoa (int (length body)))
     \<and> body \<noteq> [] \<and> length (request_wire ''POST'' (param_path ''files'' nm) hs @ body) \<le> 4096 \<and> \<not> accepts_gzip hs)"

definition gets :: "string \<Rightarrow> string list \<Rightarrow> bool" where
  "gets name pieces \<longleftrightarrow> (\<exists>nm hs. concat pieces = request_wire ''GET'' (param_path ''files'' nm) hs
     \<and> comp_ok nm \<and> to_lower nm = name \<and> sendable ''GET'' (param_path ''files'' nm) hs
     \<and> \<not> declares_body hs \<and> \<not> accepts_gzip hs)"

abbreviation waiting :: "string list \<Rightarrow> go_error \<Rightarrow> http_worker" where
  "waiting pieces e \<equiv> \<lparr>stage = Reading (new_reader pieces e), conn = new_conn\<rparr>"

abbreviation got :: "string \<Rightarrow> http_worker" where
  "got bytes \<equiv> \<lparr>stage = Answered, conn = \<lparr>sent = bytes, is_open = False\<rparr>\<rparr>"

lemma first_match_files:
  assumes "comps (to_lower (Path req)) = [''files'', name]"
  shows "HttpMethod req = ''get'' \<Longrightarrow> first_match main_routes req = (FileRead, req\<lparr>RouteVars := [''fileName'' \<mapsto> name]\<rparr>)"
    "HttpMethod req = ''post'' \<Longrightarrow> first_match main_routes req = (FileWrite, req\<lparr>RouteVars := [''fileName'' \<mapsto> name]\<rparr>)"
proof -
  have m: "match_route (Path req) segs = (if list_all2 accepts segs [''files'', name] then (True, bindings segs [''files'', name])
      else (False, Map.empty))" for segs
    by (simp add: match_route_comps assms)
  have b: "bindings [\<lparr>Part = ''files'', IsVar = False\<rparr>, \<lparr>Part = ''fileName'', IsVar = True\<rparr>] [''files'', name] = [''fileName'' \<mapsto> name]"
    by (simp add: bindings_def)
  show "HttpMethod req = ''get'' \<Longrightarrow> first_match main_routes req = (FileRead, req\<lparr>RouteVars := [''fileName'' \<mapsto> name]\<rparr>)"
    "HttpMethod req = ''post'' \<Longrightarrow> first_match main_routes req = (FileWrite, req\<lparr>RouteVars := [''fileName'' \<mapsto> name]\<rparr>)"
    by (simp_all add: main_routes_def getPathSegments_comps main_segments m accepts_def b del: list.map)
qed

lemma to_the_end_answered:
  "f \<lparr>disk = fs, client = c\<rparr> = answered fs bytes \<Longrightarrow> to_the_end f c fs = Goes (got bytes, fs)"
  by (simp add: to_the_end_def answered_def)

lemma post_turns:
  assumes "posts name body pieces" "\<forall>n. fs (path_join dir name) \<noteq> Some (Dir n)"
    and "fs (path_join dir name) = None \<longrightarrow> dirs_exist (path_join dir name) fs"
  shows "\<exists>res. http_turn gz no_faults dir (waiting pieces e) fs
      = Goes (\<lparr>stage = Writing (path_join dir name) body res, conn = new_conn\<rparr>, fs(path_join dir name \<mapsto> File []))
    \<and> (\<forall>fs1. http_turn gz no_faults dir \<lparr>stage = Writing (path_join dir name) body res, conn = new_conn\<rparr> fs1
      = Goes (got (response_wire ''201 Created'' [] []), write_at_start (path_join dir name) fs1 body))"
proof -
  obtain nm hs where p: "pieces = [request_wire ''POST'' (param_path ''files'' nm) hs @ body]" "comp_ok nm" "to_lower nm = name"
    "sendable ''POST'' (param_path ''files'' nm) hs" "header_map hs ''content-type'' \<noteq> None"
    "header_map hs ''content-length'' = Some (itoa (int (length body)))" "body \<noteq> []"
    "length (request_wire ''POST'' (param_path ''files'' nm) hs @ body) \<le> bufsize" "\<not> accepts_gzip hs"
    using assms(1) by (auto simp: posts_def)
  let ?req = "request_read ''POST'' (param_path ''files'' nm) hs body"
  have "length body \<le> 4096" using p(8) by simp
  then have "read_request (new_reader pieces e) = Goes ?req"
    using read_request_with_body [OF p(4,5,6) _ _ p(7,8)] p(1,7) by simp
  moreover have "comps (to_lower (Path ?req)) = [''files'', name]"
    using comps_param_path [OF p(2)] p(3) by (simp add: request_read_def)
  from first_match_files(2) [OF this] have "first_match main_routes ?req = (FileWrite, ?req\<lparr>RouteVars := [''fileName'' \<mapsto> name]\<rparr>)"
    by (simp add: request_read_def main_segments)
  moreover have "os_create no_faults (path_join dir name) fs = Some (fs(path_join dir name \<mapsto> File []))"
    by (rule os_create_possible [OF assms(2,3)])
  ultimately have "http_turn gz no_faults dir (waiting pieces e) fs
      = Goes (\<lparr>stage = Writing (path_join dir name) body (new_response ?req), conn = new_conn\<rparr>, fs(path_join dir name \<mapsto> File []))"
    by (simp add: http_turn_def start_write_def request_read_def Let_def)
  moreover have "http_turn gz no_faults dir \<lparr>stage = Writing (path_join dir name) body (new_response ?req), conn = new_conn\<rparr> fs1
      = Goes (got (response_wire ''201 Created'' [] []), write_at_start (path_join dir name) fs1 body)" for fs1
    using answer_without_body [OF p(9), where s = Status201Created]
    by (simp add: http_turn_def end_write_def file_write_def no_faults_def to_the_end_answered Status201Created_def)
  ultimately show ?thesis by blast
qed

lemma get_turns:
  assumes "gets name pieces" "fs (path_join dir name) = Some (File old)"
  shows "\<exists>res. http_turn gz no_faults dir (waiting pieces e) fs
      = Goes (\<lparr>stage = Sending (path_join dir name) (Ret (int (length old))) res, conn = new_conn\<rparr>, fs)
    \<and> (\<forall>fs1 now. fs1 (path_join dir name) = Some (File now) \<longrightarrow>
        http_turn gz no_faults dir \<lparr>stage = Sending (path_join dir name) (Ret (int (length old))) res, conn = new_conn\<rparr> fs1
        = Goes (got (response_wire ''200 OK'' ((''Content-Type'', ''application/octet-stream'') # length_header old) now), fs1))"
proof -
  obtain nm hs where p: "concat pieces = request_wire ''GET'' (param_path ''files'' nm) hs" "comp_ok nm" "to_lower nm = name"
    "sendable ''GET'' (param_path ''files'' nm) hs" "\<not> declares_body hs" "\<not> accepts_gzip hs"
    using assms(1) by (auto simp: gets_def)
  let ?req = "request_read ''GET'' (param_path ''files'' nm) hs []"
  have "read_request (new_reader pieces e) = Goes ?req"
    using p(1) by (intro read_request_without_body [OF p(4,5), of _ "[]"]) simp
  moreover have "comps (to_lower (Path ?req)) = [''files'', name]"
    using comps_param_path [OF p(2)] p(3) by (simp add: request_read_def)
  from first_match_files(1) [OF this] have "first_match main_routes ?req = (FileRead, ?req\<lparr>RouteVars := [''fileName'' \<mapsto> name]\<rparr>)"
    by (simp add: request_read_def main_segments)
  ultimately have "http_turn gz no_faults dir (waiting pieces e) fs
      = Goes (\<lparr>stage = Sending (path_join dir name) (Ret (int (length old))) (new_response ?req), conn = new_conn\<rparr>, fs)"
    using assms(2) by (simp add: http_turn_def start_read_def os_open_def no_faults_def Let_def)
  moreover have "http_turn gz no_faults dir \<lparr>stage = Sending (path_join dir name) (Ret (int (length old))) (new_response ?req), conn = new_conn\<rparr> fs1
      = Goes (got (response_wire ''200 OK'' ((''Content-Type'', ''application/octet-stream'') # length_header old) now), fs1)"
    if "fs1 (path_join dir name) = Some (File now)" for fs1 now
  proof -
    have "file_reader no_faults (path_join dir name) fs1 = string_reader now"
      using that by (simp add: file_reader_def no_faults_def)
    then show ?thesis
      using answer_sized [OF p(6) string_reader_pending(1)] by (simp add: http_turn_def to_the_end_answered)
  qed
  ultimately show ?thesis by blast
qed

section \<open>Two clients\<close>

lemma goes_at:
  assumes "http_run gz fl dir p0 p" "running p" "i < length (handlers p)" "http_turn gz fl dir (handlers p ! i) (files_at p) = Goes (w, fs)"
  shows "http_run gz fl dir p0 (p\<lparr>files_at := fs, handlers := (handlers p)[i := w]\<rparr>)"
  by (rule http_later [OF assms(1) http_step.goes [OF assms(2-4)]])

lemma dies_at:
  assumes "http_run gz fl dir p0 p" "running p" "i < length (handlers p)"
    and "http_turn gz fl dir (handlers p ! i) (files_at p) \<in> {Exits, Panics}"
  shows "\<exists>p'. http_run gz fl dir p0 p' \<and> \<not> running p'"
  using http_later [OF assms(1) http_step.dies [OF assms(2-4)]] by (intro exI conjI) (assumption, simp)

lemma two_accepted:
  assumes "running p"
  shows "http_run gz fl dir p (p\<lparr>handlers := handlers p @ [waiting a e, waiting b e2]\<rparr>)"
proof -
  have one: "http_run gz fl dir p (p\<lparr>handlers := handlers p @ [waiting a e]\<rparr>)"
    by (rule http_later [OF http_start accepted [OF assms]])
  from http_later [OF this accepted [of _ gz fl dir b e2]] assms show ?thesis by simp
qed

text \<open>The last two goroutines, by turns: \<open>True\<close> for the first of them.\<close>

fun pair_turns ::
  "gzip_codec \<Rightarrow> os_faults \<Rightarrow> string \<Rightarrow> bool list \<Rightarrow> http_worker \<times> http_worker \<times> file_system \<Rightarrow> (http_worker \<times> http_worker \<times> file_system) option" where
  "pair_turns gz fl dir [] s = Some s"
| "pair_turns gz fl dir (left # ts) (a, b, fs) =
     (case http_turn gz fl dir (if left then a else b) fs of
        Goes (w, fs1) \<Rightarrow> pair_turns gz fl dir ts (if left then (w, b, fs1) else (a, w, fs1))
      | _ \<Rightarrow> None)"

lemma pair_turns_run:
  assumes "running p" "http_run gz fl dir p (p\<lparr>files_at := fs, handlers := handlers p @ [a, b]\<rparr>)"
    and "pair_turns gz fl dir ts (a, b, fs) = Some (a', b', fs')"
  shows "http_run gz fl dir p (p\<lparr>files_at := fs', handlers := handlers p @ [a', b']\<rparr>)"
  using assms(2,3)
proof (induction ts arbitrary: a b fs)
  case (Cons left ts)
  obtain w fs1 where w: "http_turn gz fl dir (if left then a else b) fs = Goes (w, fs1)"
    "pair_turns gz fl dir ts (if left then (w, b, fs1) else (a, w, fs1)) = Some (a', b', fs')"
    using Cons.prems(2) by (auto split: process.splits)
  show ?case
  proof (cases left)
    case True
    with w Cons.IH [of w b fs1] goes_at [OF Cons.prems(1), of "length (handlers p)" w fs1] assms(1) show ?thesis
      by (simp add: nth_append)
  next
    case False
    with w Cons.IH [of a w fs1] goes_at [OF Cons.prems(1), of "Suc (length (handlers p))" w fs1] assms(1) show ?thesis
      by (simp add: nth_append list_update_append)
  qed
qed simp

lemma two_clients_run:
  assumes "running p" "pair_turns gz fl dir ts (waiting a e, waiting b e2, files_at p) = Some (a', b', fs')"
  shows "http_run gz fl dir p (p\<lparr>files_at := fs', handlers := handlers p @ [a', b']\<rparr>)"
  using pair_turns_run [OF assms(1) _ assms(2)] two_accepted [OF assms(1)] by simp

section \<open>Properties\<close>

text \<open>C17. A client that no other goroutine interrupts is served as \<open>Handle\<close> of its connection says:
  the process, which takes the two handlers of files in two steps, has a run in which it
  accepts the client and ends with exactly the bytes \<open>serve\<close> sends on the closed connection, the
  disk \<open>serve\<close> leaves, and every other goroutine as it was; where \<open>serve\<close> exits or panics, it
  has a run that ends the whole process.\<close>

theorem http_client_served_alone:
  assumes "running p"
  shows "case serve gz fl dir pieces e (files_at p) of
      Goes st \<Rightarrow> http_run gz fl dir p
        (p\<lparr>files_at := disk st, handlers := handlers p @ [\<lparr>stage = Answered, conn = client st\<rparr>]\<rparr>)
    | _ \<Rightarrow> \<exists>p'. http_run gz fl dir p p' \<and> \<not> running p'"
proof -
  let ?w = "waiting pieces e" and ?n = "length (handlers p)"
  let ?p1 = "p\<lparr>handlers := handlers p @ [?w]\<rparr>"
  have one: "http_run gz fl dir p ?p1" by (rule http_later [OF http_start accepted [OF assms]])
  note both = both_turns_serve [of gz fl dir pieces e "files_at p", unfolded both_turns_def]
  show ?thesis
  proof (cases "http_turn gz fl dir ?w (files_at p)")
    case (Goes x)
    obtain w1 fs1 where x: "x = (w1, fs1)" by fastforce
    let ?p2 = "p\<lparr>files_at := fs1, handlers := handlers p @ [w1]\<rparr>"
    have two: "http_run gz fl dir p ?p2" using goes_at [OF one, of ?n w1 fs1] assms Goes x by simp
    show ?thesis
    proof (cases "http_turn gz fl dir w1 fs1")
      case (Goes y)
      obtain w2 fs2 where y: "y = (w2, fs2)" by fastforce
      have "http_run gz fl dir p (p\<lparr>files_at := fs2, handlers := handlers p @ [w2]\<rparr>)"
        using goes_at [OF two, of ?n w2 fs2] assms Goes y by simp
      then show ?thesis using both \<open>http_turn gz fl dir ?w (files_at p) = Goes x\<close> Goes x y
        by (cases "serve gz fl dir pieces e (files_at p)") auto
    qed (use both Goes x dies_at [OF two, of ?n] assms in \<open>cases "serve gz fl dir pieces e (files_at p)", auto\<close>)+
  qed (use both dies_at [OF one, of ?n] assms in \<open>cases "serve gz fl dir pieces e (files_at p)", auto\<close>)+
qed

text \<open>C16. Confinement: in every run of the process, whatever clients send and however their
  goroutines interleave, the disk differs from what it was at the start only in entries of
  the served directory; no request path climbs out of it (the directory and its parent
  being directories).\<close>

theorem writes_stay_in_directory:
  assumes "http_main can_listen args fs0 = Some (dir, p0)" "dir \<noteq> []" "dots_are_dirs dir fs0"
    and "http_run gz fl dir p0 p" "files_at p q \<noteq> fs0 q"
  shows "\<exists>name. q = entry_path (path_clean dir) name \<and> name \<noteq> [] \<and> CHR ''/'' \<notin> set name
    \<and> name \<noteq> ''.'' \<and> name \<noteq> ''..''"
proof -
  have p0: "handlers p0 = []" "files_at p0 = fs0" using assms(1) by (auto simp: http_main_def split: option.splits if_splits)
  from confined_run [OF assms(4) p0(1) _ assms(2)] assms(3,5) p0(2) have "in_dir dir q" by (auto simp: confined_def)
  then show ?thesis by (simp add: in_dir_def)
qed

text \<open>C31. Two clients post different bodies under one name, in a served directory that is there:
  both can be answered 201 while the file holds neither body, but the second one followed by
  the end of the longer first.\<close>

theorem concurrent_posts_mix:
  assumes "running p" "posts name body1 pieces1" "posts name body2 pieces2"
    and "\<forall>n. files_at p (path_join dir name) \<noteq> Some (Dir n)" "dirs_exist (path_join dir name) (files_at p)"
  shows "\<exists>p'. http_run gz no_faults dir p p'
    \<and> handlers p' = handlers p @ [got (response_wire ''201 Created'' [] []), got (response_wire ''201 Created'' [] [])]
    \<and> files_at p' (path_join dir name) = Some (File (body2 @ drop (length body2) body1))"
proof -
  let ?q = "path_join dir name" and ?fs = "(files_at p)(path_join dir name \<mapsto> File [])"
  let ?final = "(files_at p)(path_join dir name \<mapsto> File (body2 @ drop (length body2) body1))"
  obtain res1 res2 where
    "http_turn gz no_faults dir (waiting pieces1 EOF) (files_at p) = Goes (\<lparr>stage = Writing ?q body1 res1, conn = new_conn\<rparr>, ?fs)"
    "\<And>fs1. http_turn gz no_faults dir \<lparr>stage = Writing ?q body1 res1, conn = new_conn\<rparr> fs1
      = Goes (got (response_wire ''201 Created'' [] []), write_at_start ?q fs1 body1)"
    "http_turn gz no_faults dir (waiting pieces2 EOF) ?fs = Goes (\<lparr>stage = Writing ?q body2 res2, conn = new_conn\<rparr>, ?fs)"
    "\<And>fs1. http_turn gz no_faults dir \<lparr>stage = Writing ?q body2 res2, conn = new_conn\<rparr> fs1
      = Goes (got (response_wire ''201 Created'' [] []), write_at_start ?q fs1 body2)"
    using post_turns [OF assms(2), where fs = "files_at p" and dir = dir and gz = gz and e = EOF]
      post_turns [OF assms(3), where fs = ?fs and dir = dir and gz = gz and e = EOF] assms(4,5) by auto
  then have "pair_turns gz no_faults dir [True, False, True, False] (waiting pieces1 EOF, waiting pieces2 EOF, files_at p)
    = Some (got (response_wire ''201 Created'' [] []), got (response_wire ''201 Created'' [] []), ?final)"
    by (simp add: write_at_start_def)
  from two_clients_run [OF assms(1) this] show ?thesis by (intro exI conjI) (assumption, simp_all)
qed

text \<open>C32. A file that is posted again while it is served: the client that gets it can be sent
  the length of the old content and none of the bytes, because the size is asked for before
  the file is cut to length zero and the content is read after it.\<close>

theorem get_during_post_breaks_length:
  assumes "running p" "gets name pieces1" "posts name body pieces2"
    and "files_at p (path_join dir name) = Some (File old)" "old \<noteq> []"
  shows "\<exists>p'. http_run gz no_faults dir p p'
    \<and> handlers p' = handlers p @ [got (response_wire ''200 OK'' [(''Content-Type'', ''application/octet-stream''),
          (''Content-Length'', itoa (int (length old)))] []), got (response_wire ''201 Created'' [] [])]
    \<and> files_at p' (path_join dir name) = Some (File body)"
proof -
  let ?q = "path_join dir name" and ?fs = "(files_at p)(path_join dir name \<mapsto> File [])"
  let ?final = "(files_at p)(path_join dir name \<mapsto> File body)"
  let ?got = "got (response_wire ''200 OK'' [(''Content-Type'', ''application/octet-stream''), (''Content-Length'', itoa (int (length old)))] [])"
  obtain res where get:
    "http_turn gz no_faults dir (waiting pieces1 EOF) (files_at p) = Goes (\<lparr>stage = Sending ?q (Ret (int (length old))) res, conn = new_conn\<rparr>, files_at p)"
    "http_turn gz no_faults dir \<lparr>stage = Sending ?q (Ret (int (length old))) res, conn = new_conn\<rparr> ?fs = Goes (?got, ?fs)"
    using get_turns [OF assms(2), where fs = "files_at p" and dir = dir and gz = gz and e = EOF] assms(4,5) by (auto simp: length_header_def)
  obtain res2 where
    "http_turn gz no_faults dir (waiting pieces2 EOF) (files_at p) = Goes (\<lparr>stage = Writing ?q body res2, conn = new_conn\<rparr>, ?fs)"
    "\<And>fs1. http_turn gz no_faults dir \<lparr>stage = Writing ?q body res2, conn = new_conn\<rparr> fs1
      = Goes (got (response_wire ''201 Created'' [] []), write_at_start ?q fs1 body)"
    using post_turns [OF assms(3), where fs = "files_at p" and dir = dir and gz = gz and e = EOF] assms(4) by auto
  with get have "pair_turns gz no_faults dir [True, False, True, False] (waiting pieces1 EOF, waiting pieces2 EOF, files_at p)
    = Some (?got, got (response_wire ''201 Created'' [] []), ?final)"
    by (simp add: write_at_start_def)
  from two_clients_run [OF assms(1) this] show ?thesis by (intro exI conjI) (assumption, simp_all)
qed

section \<open>Concrete clients\<close>

definition short_headers :: "(string \<times> string) list" where
  "short_headers = [(''Content-Type'', ''text/plain''), (''Content-Length'', ''1'')]"

lemma sample_posts:
  "posts ''a.txt'' ''ok'' [request_wire ''POST'' (param_path ''files'' ''a.TXT'') post_headers @ ''ok'']"
  "posts ''a.txt'' ''x'' [request_wire ''POST'' (param_path ''files'' ''a.TXT'') short_headers @ ''x'']"
  "gets ''a.txt'' [request_wire ''GET'' (param_path ''files'' ''A.txt'') sample_headers]"
proof -
  have l: "to_lower ''a.TXT'' = ''a.txt''" "to_lower ''A.txt'' = ''a.txt''" "itoa 1 = ''1''" by code_simp+
  have short: "sendable ''POST'' (param_path ''files'' ''a.TXT'') short_headers" "\<not> accepts_gzip short_headers"
    "header_map short_headers ''content-type'' \<noteq> None" "header_map short_headers ''content-length'' = Some (itoa 1)"
    "length (request_wire ''POST'' (param_path ''files'' ''a.TXT'') short_headers @ ''x'') = 76"
    by code_simp+
  show "posts ''a.txt'' ''ok'' [request_wire ''POST'' (param_path ''files'' ''a.TXT'') post_headers @ ''ok'']"
    unfolding posts_def by (rule exI [of _ "''a.TXT''"], rule exI [of _ post_headers]) (use sample_requests l in simp)
  show "posts ''a.txt'' ''x'' [request_wire ''POST'' (param_path ''files'' ''a.TXT'') short_headers @ ''x'']"
    unfolding posts_def by (rule exI [of _ "''a.TXT''"], rule exI [of _ short_headers]) (use sample_requests(16) short l in simp)
  show "gets ''a.txt'' [request_wire ''GET'' (param_path ''files'' ''A.txt'') sample_headers]"
    unfolding gets_def by (rule exI [of _ "''A.txt''"], rule exI [of _ sample_headers]) (use sample_requests l in simp)
qed

definition small_disk :: file_system where
  "small_disk = [''wwwroot'' \<mapsto> Dir 1, ''.'' \<mapsto> Dir 1, ''wwwroot/a.txt'' \<mapsto> File ''old'']"

lemma small_disk:
  "dots_are_dirs ''wwwroot'' small_disk" "path_join ''wwwroot'' ''a.txt'' = ''wwwroot/a.txt''"
  "small_disk ''wwwroot/a.txt'' = Some (File ''old'')" "dirs_exist ''wwwroot/a.txt'' small_disk"
  by code_simp+

definition small_process :: http_process where
  "small_process = \<lparr>files_at = small_disk, handlers = [], running = True\<rparr>"

lemma small_main: "http_main (\<lambda>_. True) [] small_disk = Some (''wwwroot'', small_process)"
  by (simp add: http_main_def http_config_def default_flags_def small_process_def)

theorem http_client_served_alone_witness:
  "http_run sample_codec no_faults ''wwwroot'' small_process
    (small_process\<lparr>handlers := [got (response_wire ''404 Not Found'' [] [])]\<rparr>)"
proof -
  have "serve sample_codec no_faults ''wwwroot'' [request_wire ''PUT'' (path_of [''files'', ''x'']) sample_headers] EOF small_disk
      = answered small_disk (response_wire ''404 Not Found'' [] [])"
    by (rule unknown_path_is_404 [OF sample_requests(18,13,2,3), of _ "[]"]) (simp_all add: sample_requests)
  with http_client_served_alone [of small_process sample_codec no_faults "''wwwroot''"
      "[request_wire ''PUT'' (path_of [''files'', ''x'']) sample_headers]" EOF]
  show ?thesis by (simp add: small_process_def answered_def)
qed

theorem writes_stay_in_directory_witness:
  "\<exists>name. ''wwwroot/a.txt'' = entry_path (path_clean ''wwwroot'') name \<and> name \<noteq> [] \<and> CHR ''/'' \<notin> set name
    \<and> name \<noteq> ''.'' \<and> name \<noteq> ''..''"
proof -
  let ?fs = "small_disk(''wwwroot/a.txt'' \<mapsto> File [])"
  obtain res where "http_turn sample_codec no_faults ''wwwroot''
      (waiting [request_wire ''POST'' (param_path ''files'' ''a.TXT'') post_headers @ ''ok''] EOF) small_disk
    = Goes (\<lparr>stage = Writing ''wwwroot/a.txt'' ''ok'' res, conn = new_conn\<rparr>, ?fs)"
    using post_turns [OF sample_posts(1), where fs = small_disk and dir = "''wwwroot''" and gz = sample_codec and e = EOF]
    by (auto simp: small_disk)
  then have "pair_turns sample_codec no_faults ''wwwroot'' [True]
      (waiting [request_wire ''POST'' (param_path ''files'' ''a.TXT'') post_headers @ ''ok''] EOF, waiting [] EOF, files_at small_process)
    = Some (\<lparr>stage = Writing ''wwwroot/a.txt'' ''ok'' res, conn = new_conn\<rparr>, waiting [] EOF, ?fs)" by (simp add: small_process_def)
  from two_clients_run [OF _ this]
  have "\<exists>p. http_run sample_codec no_faults ''wwwroot'' small_process p \<and> files_at p = ?fs"
    by (auto simp: small_process_def intro!: exI)
  then obtain p where "http_run sample_codec no_faults ''wwwroot'' small_process p" "files_at p = ?fs" by blast
  with writes_stay_in_directory [OF small_main _ small_disk(1), of sample_codec no_faults p "''wwwroot/a.txt''"]
  show ?thesis by (simp add: small_disk)
qed

theorem concurrent_posts_mix_witness:
  "\<exists>p'. http_run sample_codec no_faults ''wwwroot'' small_process p'
    \<and> files_at p' ''wwwroot/a.txt'' = Some (File ''xk'')"
  using concurrent_posts_mix [OF _ sample_posts(1,2), of small_process "''wwwroot''" sample_codec]
  by (auto simp: small_process_def small_disk)

theorem get_during_post_breaks_length_witness:
  "\<exists>p'. http_run sample_codec no_faults ''wwwroot'' small_process p'
    \<and> handlers p' = [got (response_wire ''200 OK'' [(''Content-Type'', ''application/octet-stream''), (''Content-Length'', ''3'')] []),
        got (response_wire ''201 Created'' [] [])]
    \<and> files_at p' ''wwwroot/a.txt'' = Some (File ''ok'')"
proof -
  have "itoa 3 = ''3''" by code_simp
  then show ?thesis
    using get_during_post_breaks_length [OF _ sample_posts(3,1), of small_process "''wwwroot''" "''old''" sample_codec]
    by (simp add: small_process_def small_disk)
qed

end
