(* ===== verification/Spec2Isabelle.thy ===== *)
theory Spec2Isabelle
  imports Prelude Strconv Bufio Resp_Parser Transactions Connections Repl_Listener Rdb_Format
    Repl_Client Redis_Server Goroutines Redis_Process Redis_Races Pubsub Kv_Contracts
    Http_Service Http_Flags Http_Process
begin

text \<open>
  A verification development for the two servers of this repository, both written in Go:
  redis-go, a subset of redis with replication and persistence, and http-server-go, a small
  file and echo server over HTTP/1.1. Paths below are relative to src/.

  \<^bold>\<open>Conventions.\<close> A Go string or byte slice is a \<open>string\<close> (8-bit characters); \<open>int\<close> values
  are \<open>int\<close> with the 64-bit range and its wrap-around written out (\<open>in_int64\<close>, \<open>wrap_int\<close>),
  unsigned 64-bit values are words. A call returns \<open>Ret\<close>, \<open>Err\<close> or \<open>Panic\<close> (type \<open>go\<close>); no
  code recovers from a panic, so a panic ends the process, and so do \<open>os.Exit\<close> and a fatal
  log entry (\<open>Panic\<close>, \<open>Crash\<close>, \<open>Exits\<close>, \<open>Panics\<close> by component). State is passed explicitly. A
  map is iterated in an order given from outside (\<open>order\<close> of \<open>env\<close>), the clock is part of the
  environment too (\<open>now\<close>). Words are lowered as ASCII; properties about lowered text that is
  sent back ask for ASCII.

  \<^bold>\<open>Standard library.\<close> \<open>Prelude\<close> holds the outcomes and package strings, \<open>Strconv\<close> Itoa and
  Atoi with their range errors, \<open>Bufio\<close> the buffered reader with its 4096-byte buffer over
  input that arrives in pieces. Its locale \<open>byte_stream\<close> states which operations do not depend
  on the pieces, and is interpreted on the reader; \<open>Read\<close>, which does depend on them, has
  lemmas of its own. \<open>Http_Strings\<close> and \<open>Http_Files\<close> add what the HTTP server uses of strings,
  path and os.

  \<^bold>\<open>redis-go: the protocol.\<close> \<open>Resp_Types\<close>, \<open>Resp_Lexer\<close> and \<open>Resp_Parser\<close> follow app/resp: the
  values and how they print, the lexer, the parser with its termination. Shown: a printed
  value is read back (\<open>parse_reads_back\<close>), the byte counter counts what was consumed, the null
  bulk string panics.

  \<^bold>\<open>redis-go: the store.\<close> \<open>Kv_Store\<close> is app/store/kv_store.go: get and set with expiry (locale
  \<open>expiring_store\<close>, interpreted on them), streams with XADD, XRANGE and XREAD; \<open>Stream_Id\<close>
  makes the IDs a linear order. \<open>Kv_Streams\<close> shows the stream invariant (IDs ascend and are
  in printed form), \<open>Kv_Ranges\<close> what the index searches return, \<open>Kv_Contracts\<close> that
  \<open>SetStream\<close> refines adding to an abstract log, that INCR counts within 64 bits, and
  which requests cannot crash the server.

  \<^bold>\<open>redis-go: the commands.\<close> \<open>Host_Context\<close> is the shared state of app/cmd/main.go, \<open>Cmd_Handlers\<close>
  one definition per handler of app/cmd, \<open>Commands\<close> the dispatcher and EXEC, which call each
  other: \<open>handle_depth n\<close> unfolds the mutual calls \<open>n\<close> deep, and depth 1 is enough because
  queues never hold EXEC (\<open>handle_depth_enough\<close>). \<open>Transactions\<close> shows that MULTI and EXEC
  answer and act like the queued commands run one after the other, what a MULTI inside a
  transaction does to every later one, and that every reachable state is well formed. \<open>Connections\<close> is the loop of one client connection
  (app/server.go, \<open>handleConnection\<close>), which ends because every request takes bytes off
  the input; pipelined requests are answered in order.

  \<^bold>\<open>redis-go: the process.\<close> \<open>Goroutines\<close> writes every command as the sequence of its
  operations on the shared state (type \<open>prog\<close>), each under one lock or one send on a channel,
  and shows that a sequence run without an interruption is the handler of \<open>Commands\<close>
  (\<open>alone_goroutine\<close>) and that whatever runs in between, every operation keeps the shared
  state well formed and other clients' queues (\<open>goroutine_safe\<close>). \<open>Redis_Process\<close> is \<open>main\<close>
  of app/server.go, from its arguments to the listening socket, and the step relation of
  its goroutines: the accept loop, one goroutine per connection, the replication listener.
  Shown by rule induction: the invariant of every reachable state, that a client nobody
  interrupts is served as \<open>handleConnection\<close> says, and that a transaction of a connection
  that ended stays. \<open>Redis_Races\<close> has the runs in which two clients meet: a lost
  increment, a transaction that sees another client's write, followers that keep another
  value than the leader.

  \<^bold>\<open>redis-go: persistence and replication.\<close> \<open>Rdb_File\<close> is the reader of RDB files
  (app/rdb/rdb.go), \<open>Rdb_Format\<close> an encoder of the format, the round trip for files that fit
  the reader's buffer, and loading at start; \<open>Rdb_Transfer\<close> the snapshot of a PSYNC.
  \<open>Repl_Client\<close> is the handshake of a follower (app/replication/repl_client.go),
  \<open>Repl_Listener\<close> the loop it applies the leader's commands in (\<open>replication_run\<close>, a
  partial function that is shown to have a value for every input, \<open>listener_always_ends\<close>),
  \<open>Redis_Server\<close> the arguments, the initial state and leader and follower put together.
  \<open>Pubsub\<close> is the step relation of the goroutines that carry events to the followers
  (app/replication/pubsub_manager.go, app/cmd/psync.go), with its invariant: followers get
  the accepted events in order, without gaps from their first one; two runs of the relation
  show how broken followers end the leader or stop it for ever.

  \<^bold>\<open>http-server-go.\<close> \<open>Http_Router\<close> is app/lib/http/router.go: patterns, matching through a
  reader, and the equivalence with matching component by component. \<open>Http_Message\<close> reads
  requests and \<open>Http_Response\<close> sends responses (serialization.go, types.go, constants.go). The
  locale \<open>input_view\<close> states what reading a request head needs of the input; it is interpreted
  twice, for bytes that arrive in any pieces and for bytes in the buffer, where the body can
  be read in one \<open>Read\<close>. \<open>Http_Server\<close> is the pipeline (pipeline.go) with the five handlers of
  app/server.go over a disk; \<open>serve\<close> is one connection from its first byte to its close.
  \<open>Http_Service\<close> shows what whole connections do: echo, plain and compressed, a posted file
  served again, 404, and the requests that end the process. \<open>Http_Flags\<close> is the command line,
  with what package flag and the base-0 numbers of strconv make of it. \<open>Http_Process\<close> is the
  accept loop and its goroutines over the shared disk, with the handlers of files in two
  steps each: the steps of one connection are \<open>serve\<close> (\<open>both_turns_serve\<close>), no interleaving
  writes outside the served directory, and two runs show what concurrent requests for one
  file can do.

  \<^bold>\<open>Bounds.\<close> The buffer is 4096 bytes (\<open>bufsize\<close>), and theorems about a single \<open>Read\<close> ask that
  the bytes fit it; \<open>make\<close> panics beyond 2^48 bytes (\<open>make_ok\<close>). No other fuel is used: loops
  are recursive with a termination proof, or the partial function above.

  \<^bold>\<open>Assumptions.\<close> In \<open>Commands\<close>, \<open>Transactions\<close>, \<open>Connections\<close> and the theories of replication
  a redis command is one step, which is what it does when nothing runs in between; in
  \<open>Redis_Process\<close> only an operation under a lock is one. The two unlocked accesses of the code
  are findings of the manifest. In \<open>Http_Process\<close> reading a whole file and writing a whole
  body are one step each. UUIDs are drawn distinct and not zero. Writes to a client
  connection succeed, except where their failure is the subject (\<open>Pubsub\<close>, \<open>write_errors\<close> of
  \<open>Repl_Client\<close>). Given from outside: dialling a leader, whether an address can be listened
  on, the file system's faults beyond a missing directory, a file in a directory's place and
  a directory in a file's, what compress/gzip makes of a text (the property that uses
  it states that decompression inverts it), random numbers, and whether a fatal log entry
  returns. What a connection reports when its bytes are over is a list of errors, one per read,
  and \<open>EOF\<close> from then on. A disk is a map of paths in which what is there stands in directories.

  \<^bold>\<open>Not modelled.\<close> Logging and debug prints, and so the parts of an error's text that are only
  logged (the type in INCR's, which step of decompressing failed); the fields \<open>valqueue\<close> and \<open>expqueue\<close> of the
  store, which no code reads; memory exhaustion; the scheduler's fairness; that a PSYNC
  goroutine reads its connection again after its replication loop has ended on a failed
  write. The channels of \<open>Pubsub\<close> and the process of \<open>Redis_Process\<close> are two step relations,
  joined at the list of published events.
\<close>

end
